theory Spec2Isabelle
  imports Complex_Main "HOL-Library.Char_ord" "HOL-Library.List_Lexorder"
    "HOL-Library.Monad_Syntax"
begin

section \<open>Python strings\<close>

text \<open>
  A Python \<^verbatim>\<open>str\<close> is modelled as a \<^typ>\<open>string\<close> whose characters are the code
  points 0..255 (Latin-1). \<^verbatim>\<open>str.split\<close>, \<^verbatim>\<open>str.strip\<close>, \<^verbatim>\<open>str.isspace\<close> and the
  regular expression class \<^verbatim>\<open>\s\<close> all use the same whitespace test; below 256 it
  holds for 0x09..0x0D, 0x1C..0x20, 0x85 and 0xA0.
\<close>

definition is_space :: "char \<Rightarrow> bool" where
  "is_space c =
     (let n = (of_char c :: nat)
      in (9 \<le> n \<and> n \<le> 13) \<or> (28 \<le> n \<and> n \<le> 32) \<or> n = 133 \<or> n = 160)"

text \<open>\<^verbatim>\<open>s.strip()\<close>\<close>

definition strip :: "string \<Rightarrow> string" where
  "strip s = rev (dropWhile is_space (rev (dropWhile is_space s)))"

text \<open>\<^verbatim>\<open>s.split()\<close>: the maximal runs of non-whitespace characters, left to right.\<close>

fun split_acc :: "string \<Rightarrow> string \<Rightarrow> string list" where
  "split_acc cur [] = (if cur = [] then [] else [cur])"
| "split_acc cur (c # cs) =
     (if is_space c then (if cur = [] then split_acc [] cs else cur # split_acc [] cs)
      else split_acc (cur @ [c]) cs)"

definition split_ws :: "string \<Rightarrow> string list" where
  "split_ws s = split_acc [] s"

text \<open>\<^verbatim>\<open>sep.join(xs)\<close>\<close>

fun join :: "string \<Rightarrow> string list \<Rightarrow> string" where
  "join sep [] = []"
| "join sep [x] = x"
| "join sep (x # y # ys) = x @ sep @ join sep (y # ys)"

text \<open>\<^verbatim>\<open>s.lower()\<close> on Latin-1: A..Z and 0xC0..0xDE (without 0xD7) move up by 32.\<close>

definition lower_char :: "char \<Rightarrow> char" where
  "lower_char c =
     (let n = (of_char c :: nat)
      in if (65 \<le> n \<and> n \<le> 90) \<or> (192 \<le> n \<and> n \<le> 222 \<and> n \<noteq> 215)
         then char_of (n + 32) else c)"

definition lower :: "string \<Rightarrow> string" where
  "lower s = map lower_char s"

text \<open>\<^verbatim>\<open>s.replace("\xa0", " ")\<close>\<close>

definition replace_nbsp :: "string \<Rightarrow> string" where
  "replace_nbsp s = map (\<lambda>c. if c = CHR 0xA0 then CHR '' '' else c) s"

text \<open>
  \<^verbatim>\<open>re.sub(r"\s*P\s*", "P", s)\<close> for a single literal character \<open>P\<close>: scanning from
  the left, a whitespace run that is followed by \<open>P\<close> is removed together with the
  whitespace run after \<open>P\<close>; a whitespace run that is followed by anything else is kept.
\<close>

function re_sub_ws_around :: "char \<Rightarrow> string \<Rightarrow> string" where
  "re_sub_ws_around p s =
     (case dropWhile is_space s of
        [] \<Rightarrow> s
      | c # t \<Rightarrow>
          if c = p then p # re_sub_ws_around p (dropWhile is_space t)
          else takeWhile is_space s @ c # re_sub_ws_around p t)"
  by pat_completeness auto
termination
proof (relation "measure (\<lambda>(p, s). length s)")
  show "wf (measure (\<lambda>(p, s). length s))" by simp
next
  fix p :: char and s :: string and c t
  assume a: "dropWhile is_space s = c # t"
  have "length (c # t) \<le> length s"
    using length_dropWhile_le [of is_space s] a by simp
  moreover have "length (dropWhile is_space t) \<le> length t"
    by (rule length_dropWhile_le)
  ultimately show "((p, dropWhile is_space t), (p, s)) \<in> measure (\<lambda>(p, s). length s)"
    by simp
next
  fix p :: char and s :: string and c t
  assume a: "dropWhile is_space s = c # t"
  have "length (c # t) \<le> length s"
    using length_dropWhile_le [of is_space s] a by simp
  then show "((p, t), (p, s)) \<in> measure (\<lambda>(p, s). length s)"
    by simp
qed

declare re_sub_ws_around.simps [simp del]

text \<open>\<^verbatim>\<open>str(n)\<close> for a Python \<^verbatim>\<open>int\<close>: decimal digits, a leading minus sign when negative.\<close>

definition digit_char :: "nat \<Rightarrow> char" where
  "digit_char d = ''0123456789'' ! d"

fun str_nat :: "nat \<Rightarrow> string" where
  "str_nat n = (if n < 10 then [digit_char n] else str_nat (n div 10) @ [digit_char (n mod 10)])"

declare str_nat.simps [simp del]

definition str_int :: "int \<Rightarrow> string" where
  "str_int i = (if i < 0 then CHR ''-'' # str_nat (nat (- i)) else str_nat (nat i))"

section \<open>Cell values\<close>

text \<open>
  A Python \<^verbatim>\<open>float\<close> is modelled by the value it denotes: not-a-number, an infinity,
  or a finite value, which is a rational number. Only \<^verbatim>\<open>math.isnan\<close>,
  \<^verbatim>\<open>float.is_integer\<close>, \<^verbatim>\<open>int(v)\<close> and the comparison with 0 are used by the program,
  and all four are exact on the value.
\<close>

datatype pyfloat = NaN | PosInf | NegInf | Finite rat

definition isnan :: "pyfloat \<Rightarrow> bool" where
  "isnan f = (f = NaN)"

fun is_integer :: "pyfloat \<Rightarrow> bool" where
  "is_integer (Finite q) = (of_int \<lfloor>q\<rfloor> = q)"
| "is_integer _ = False"

text \<open>\<^verbatim>\<open>int(v)\<close> truncates towards zero; it is only called on floats with an integer value.\<close>

fun int_of_float :: "pyfloat \<Rightarrow> int" where
  "int_of_float (Finite q) = (if 0 \<le> q then \<lfloor>q\<rfloor> else \<lceil>q\<rceil>)"
| "int_of_float _ = 0"

text \<open>
  A cell of a frame is empty (\<^verbatim>\<open>None\<close>), a float (an empty spreadsheet cell is read as
  the float NaN), an integer or a string.
\<close>

datatype cell = PyNone | PyFloat pyfloat | PyInt int | PyStr string

text \<open>
  \<^verbatim>\<open>str(v)\<close>. The decimal text Python prints for a float is not modelled: it is the
  parameter \<open>float_repr\<close>.
\<close>

fun py_str :: "(pyfloat \<Rightarrow> string) \<Rightarrow> cell \<Rightarrow> string" where
  "py_str float_repr PyNone = ''None''"
| "py_str float_repr (PyFloat f) = float_repr f"
| "py_str float_repr (PyInt i) = str_int i"
| "py_str float_repr (PyStr s) = s"

fun is_float :: "cell \<Rightarrow> bool" where
  "is_float (PyFloat f) = True"
| "is_float _ = False"

fun float_of :: "cell \<Rightarrow> pyfloat" where
  "float_of (PyFloat f) = f"
| "float_of _ = NaN"

text \<open>\<^verbatim>\<open>_clean_key_value\<close>\<close>

definition clean_key_value :: "(pyfloat \<Rightarrow> string) \<Rightarrow> cell \<Rightarrow> string" where
  "clean_key_value float_repr v =
     (if v = PyNone \<or> (is_float v \<and> isnan (float_of v)) then ''''
      else if is_float v \<and> is_integer (float_of v) then str_int (int_of_float (float_of v))
      else strip (py_str float_repr v))"

section \<open>Column canonicalization\<close>

text \<open>\<^verbatim>\<open>_norm_key_name\<close>. A column label is a string, so the \<^verbatim>\<open>None\<close> branch has no input.\<close>

definition norm_key_name :: "string \<Rightarrow> string" where
  "norm_key_name name =
     (let s = replace_nbsp name;
          s = lower (strip (join '' '' (split_ws s)));
          s = re_sub_ws_around CHR ''('' s;
          s = re_sub_ws_around CHR '')'' s
      in s)"

text \<open>The target of one label in \<^verbatim>\<open>rename_map\<close>, or the label itself when it has no entry.\<close>

definition canon_name :: "string \<Rightarrow> string" where
  "canon_name col =
     (let k = norm_key_name col
      in if k \<in> set [''item number'', ''itemnumber'', ''item no'', ''item_no'', ''itemnr'', ''item'']
         then ''Item number''
         else if k \<in> set [''delay(days)'', ''delay (days)'', ''delay_days'', ''delay'',
                           ''vertraging(dagen)'', ''vertraging (dagen)'']
         then ''Delay (days)''
         else if k = ''number'' then ''Number''
         else col)"

text \<open>
  A frame with the default row index: its column labels and its rows, each row holding
  one cell per column.
\<close>

record table =
  columns :: "string list"
  rows :: "cell list list"

text \<open>\<^verbatim>\<open>_canon_columns\<close>: \<^verbatim>\<open>df.rename(columns=rename_map)\<close> relabels and keeps the data.\<close>

definition canon_columns :: "table \<Rightarrow> table" where
  "canon_columns df = df\<lparr>columns := map canon_name (columns df)\<rparr>"

text \<open>
  The position of the column labelled \<open>c\<close>. Frames are rectangular, and the labels of a
  frame are taken to be pairwise distinct where a column is addressed by its label.
\<close>

definition col_index :: "string list \<Rightarrow> string \<Rightarrow> nat" where
  "col_index cols c = length (takeWhile (\<lambda>x. x \<noteq> c) cols)"

definition frame_ok :: "table \<Rightarrow> bool" where
  "frame_ok df =
     (distinct (columns df) \<and> list_all (\<lambda>r. length r = length (columns df)) (rows df))"

text \<open>\<^verbatim>\<open>_ensure_item_number\<close>: the new column is appended as the last one.\<close>

definition ensure_item_number :: "table \<Rightarrow> table" where
  "ensure_item_number df =
     (if ''Item number'' \<notin> set (columns df) \<and> ''Number'' \<in> set (columns df)
      then (let i = col_index (columns df) ''Number''
            in \<lparr>columns = columns df @ [''Item number''],
                rows = map (\<lambda>r. r @ [r ! i]) (rows df)\<rparr>)
      else df)"

section \<open>Dataset preparation\<close>

text \<open>
  The \<^verbatim>\<open>KeyError\<close> of \<^verbatim>\<open>_prepare\<close>. Its message is the text
  \<^verbatim>\<open>Kolom '{key}' ontbreekt in een van de bestanden.\nOud kolommen: {old}\nNieuw kolommen: {new}\<close>
  formatted from the three values the error carries here: the key, the column list of
  the old frame and the column list of the new frame.
\<close>

datatype error = KeyError string "string list" "string list"

text \<open>
  A frame indexed by key (\<^verbatim>\<open>set_index(key)\<close>): the name of the index, the remaining
  column labels, and for each row its key and its remaining cells. The keys are strings,
  as \<^verbatim>\<open>_clean_key_value\<close> returns them.
\<close>

record itable =
  index_name :: string
  icolumns :: "string list"
  irows :: "(string \<times> cell list) list"

text \<open>\<^verbatim>\<open>df[key] = df[key].map(_clean_key_value)\<close>\<close>

definition clean_key_column :: "(pyfloat \<Rightarrow> string) \<Rightarrow> string \<Rightarrow> table \<Rightarrow> table" where
  "clean_key_column float_repr key df =
     (let i = col_index (columns df) key
      in df\<lparr>rows := map (\<lambda>r. r[i := PyStr (clean_key_value float_repr (r ! i))]) (rows df)\<rparr>)"

text \<open>
  \<^verbatim>\<open>drop_duplicates(subset=[key], keep="last")\<close>: a row is dropped when a later row has
  the same key; the rows that stay keep their order.
\<close>

fun keep_last :: "('r \<Rightarrow> 'k) \<Rightarrow> 'r list \<Rightarrow> 'r list" where
  "keep_last f [] = []"
| "keep_last f (r # rs) =
     (if f r \<in> set (map f rs) then keep_last f rs else r # keep_last f rs)"

definition drop_duplicates_last :: "string \<Rightarrow> table \<Rightarrow> table" where
  "drop_duplicates_last key df =
     (let i = col_index (columns df) key
      in df\<lparr>rows := keep_last (\<lambda>r. r ! i) (rows df)\<rparr>)"

text \<open>\<^verbatim>\<open>df[cols]\<close>\<close>

definition select_columns :: "string list \<Rightarrow> table \<Rightarrow> table" where
  "select_columns cols df =
     \<lparr>columns = cols,
      rows = map (\<lambda>r. map (\<lambda>c. r ! col_index (columns df) c) cols) (rows df)\<rparr>"

text \<open>The string held by a cell of the cleaned key column.\<close>

fun str_of_cell :: "cell \<Rightarrow> string" where
  "str_of_cell (PyStr s) = s"
| "str_of_cell _ = []"

text \<open>\<^verbatim>\<open>df.set_index(key)\<close>: the key column leaves the columns and becomes the index.\<close>

definition set_index :: "string \<Rightarrow> table \<Rightarrow> itable" where
  "set_index key df =
     (let i = col_index (columns df) key
      in \<lparr>index_name = key,
          icolumns = take i (columns df) @ drop (Suc i) (columns df),
          irows = map (\<lambda>r. (str_of_cell (r ! i), take i r @ drop (Suc i) r)) (rows df)\<rparr>)"

text \<open>\<^verbatim>\<open>df.reset_index()\<close> of a frame indexed by key: the key is the leading column again.\<close>

definition reset_index :: "itable \<Rightarrow> table" where
  "reset_index t =
     \<lparr>columns = index_name t # icolumns t,
      rows = map (\<lambda>(k, cs). PyStr k # cs) (irows t)\<rparr>"

text \<open>\<^verbatim>\<open>_prepare\<close>\<close>

definition prepare ::
  "(pyfloat \<Rightarrow> string) \<Rightarrow> table \<Rightarrow> table \<Rightarrow> string \<Rightarrow> error + (itable \<times> itable \<times> string list)" where
  "prepare float_repr df_old0 df_new0 key =
     (let df_old = ensure_item_number (canon_columns df_old0);
          df_new = ensure_item_number (canon_columns df_new0)
      in if key \<notin> set (columns df_old) \<or> key \<notin> set (columns df_new)
         then Inl (KeyError key (columns df_old) (columns df_new))
         else
           (let df_old = clean_key_column float_repr key df_old;
                df_new = clean_key_column float_repr key df_new;
                df_old = drop_duplicates_last key df_old;
                df_new = drop_duplicates_last key df_new;
                common_cols = sort (remdups (filter (\<lambda>c. c \<in> set (columns df_old)) (columns df_new)));
                common_cols = (if key \<in> set common_cols
                               then key # filter (\<lambda>c. c \<noteq> key) common_cols else common_cols)
            in Inr (set_index key (select_columns common_cols df_old),
                    set_index key (select_columns common_cols df_new),
                    common_cols)))"

section \<open>Delta filter\<close>

text \<open>
  \<^verbatim>\<open>pd.to_numeric(..., errors="coerce")\<close> on one cell: a number is kept, an empty cell
  is NaN, and a string is parsed, giving NaN when it is not the text of a number. The
  number grammar of the parser is not modelled: it is the parameter \<open>parse\<close>.
\<close>

fun to_numeric :: "(string \<Rightarrow> pyfloat) \<Rightarrow> cell \<Rightarrow> pyfloat" where
  "to_numeric parse PyNone = NaN"
| "to_numeric parse (PyFloat f) = f"
| "to_numeric parse (PyInt i) = Finite (of_int i)"
| "to_numeric parse (PyStr s) = parse s"

text \<open>\<^verbatim>\<open>.fillna(0)\<close> on one value\<close>

definition fillna0 :: "pyfloat \<Rightarrow> pyfloat" where
  "fillna0 f = (if isnan f then Finite 0 else f)"

text \<open>\<^verbatim>\<open>x > 0\<close>\<close>

fun gt0 :: "pyfloat \<Rightarrow> bool" where
  "gt0 (Finite q) = (0 < q)"
| "gt0 PosInf = True"
| "gt0 _ = False"

text \<open>
  \<^verbatim>\<open>_new_rows_with_delay\<close>. \<^verbatim>\<open>.loc[added_keys]\<close> takes, key by key in the order of
  \<open>added_keys\<close>, the rows of the new frame that carry the key. The coerced delay column
  is stored as floats.
\<close>

definition new_rows_with_delay :: "(string \<Rightarrow> pyfloat) \<Rightarrow> itable \<Rightarrow> itable \<Rightarrow> table" where
  "new_rows_with_delay parse df_old_idx df_new_idx =
     (let added_keys = sort (remdups (filter (\<lambda>k. k \<notin> set (map fst (irows df_old_idx)))
                                             (map fst (irows df_new_idx))))
      in if added_keys = []
         then \<lparr>columns = ''Item number'' # filter (\<lambda>c. c \<noteq> ''Item number'') (icolumns df_new_idx),
               rows = []\<rparr>
         else
           (let df_added = df_new_idx\<lparr>irows :=
                  concat (map (\<lambda>k. filter (\<lambda>r. fst r = k) (irows df_new_idx)) added_keys)\<rparr>;
                df_added =
                  (if ''Delay (days)'' \<in> set (icolumns df_added)
                   then (let i = col_index (icolumns df_added) ''Delay (days)'';
                             df_added = df_added\<lparr>irows :=
                               map (\<lambda>(k, cs). (k, cs[i := PyFloat (fillna0 (to_numeric parse (cs ! i)))]))
                                   (irows df_added)\<rparr>
                         in df_added\<lparr>irows :=
                              filter (\<lambda>(k, cs). gt0 (float_of (cs ! i))) (irows df_added)\<rparr>)
                   else df_added)
            in reset_index df_added))"

section \<open>Export\<close>

text \<open>\<^verbatim>\<open>_excel_bad_chars.sub("_", name)\<close>\<close>

definition excel_bad_chars :: "char list" where
  "excel_bad_chars = [CHR ''['', CHR '']'', CHR '':'', CHR ''*'', CHR ''?'', CHR 0x5C, CHR ''/'']"

definition sub_bad_chars :: "string \<Rightarrow> string" where
  "sub_bad_chars name = map (\<lambda>c. if c \<in> set excel_bad_chars then CHR ''_'' else c) name"

text \<open>
  The \<^verbatim>\<open>while name in seen\<close> loop of \<^verbatim>\<open>_excel_safe_headers\<close>, with its state \<open>n\<close> and
  \<open>name\<close>. It ends because the candidates \<open>base_2\<close>, \<open>base_3\<close>, ... are pairwise
  different and \<open>seen\<close> is finite; the decimal value of a digit string shows the former.
\<close>

definition digit_val :: "char \<Rightarrow> nat" where
  "digit_val c = of_char c - 48"

definition nat_of_digits :: "string \<Rightarrow> nat" where
  "nat_of_digits s = foldl (\<lambda>a c. 10 * a + digit_val c) 0 s"

lemma digit_val_digit_char: "d < 10 \<Longrightarrow> digit_val (digit_char d) = d"
proof -
  assume "d < 10"
  then have "d \<in> set [0..<10]"
    by simp
  moreover have "[0..<10] = [0, 1, 2, 3, 4, 5, 6, 7, 8, 9 :: nat]"
    by code_simp
  ultimately have "d \<in> set [0, 1, 2, 3, 4, 5, 6, 7, 8, 9 :: nat]"
    by simp
  then show ?thesis
    by (auto simp: digit_val_def digit_char_def)
qed

lemma nat_of_digits_str_nat: "nat_of_digits (str_nat n) = n"
proof (induction n rule: str_nat.induct)
  case (1 n)
  show ?case
  proof (cases "n < 10")
    case True
    then show ?thesis
      by (subst str_nat.simps) (simp add: nat_of_digits_def digit_val_digit_char)
  next
    case False
    have "nat_of_digits (str_nat n) =
            10 * nat_of_digits (str_nat (n div 10)) + digit_val (digit_char (n mod 10))"
      using False by (subst str_nat.simps) (simp add: nat_of_digits_def)
    also have "\<dots> = 10 * (n div 10) + n mod 10"
      using "1.IH" [OF False] by (simp add: digit_val_digit_char)
    finally show ?thesis by simp
  qed
qed

lemma str_nat_inject: "str_nat m = str_nat n \<Longrightarrow> m = n"
  by (metis nat_of_digits_str_nat)

lemma finite_later_candidates:
  "finite {m. n < m \<and> base @ ''_'' @ str_nat m \<in> set seen}"
proof -
  have "inj (\<lambda>m. base @ ''_'' @ str_nat m)"
    by (rule injI) (simp add: str_nat_inject)
  then have "finite ((\<lambda>m. base @ ''_'' @ str_nat m) -` set seen)"
    by (simp add: finite_vimageI)
  moreover have "{m. n < m \<and> base @ ''_'' @ str_nat m \<in> set seen}
                 \<subseteq> (\<lambda>m. base @ ''_'' @ str_nat m) -` set seen"
    by auto
  ultimately show ?thesis
    by (rule rev_finite_subset)
qed

lemma card_later_candidates:
  "card {m. n < m \<and> base @ ''_'' @ str_nat m \<in> set seen} =
     card {m. Suc n < m \<and> base @ ''_'' @ str_nat m \<in> set seen}
       + (if base @ ''_'' @ str_nat (Suc n) \<in> set seen then 1 else 0)"
proof (cases "base @ ''_'' @ str_nat (Suc n) \<in> set seen")
  case True
  then have "{m. n < m \<and> base @ ''_'' @ str_nat m \<in> set seen} =
          insert (Suc n) {m. Suc n < m \<and> base @ ''_'' @ str_nat m \<in> set seen}"
    by (auto simp: less_Suc_eq Suc_lessI)
  then show ?thesis
    using True finite_later_candidates [of "Suc n" base seen] by simp
next
  case False
  then have "{m. n < m \<and> base @ ''_'' @ str_nat m \<in> set seen} =
          {m. Suc n < m \<and> base @ ''_'' @ str_nat m \<in> set seen}"
    by (metis Suc_lessD Suc_lessI)
  then show ?thesis
    using False by simp
qed

function uniq_name :: "string \<Rightarrow> string list \<Rightarrow> nat \<Rightarrow> string \<Rightarrow> string" where
  "uniq_name base seen n name =
     (if name \<in> set seen
      then uniq_name base seen (Suc n) (base @ ''_'' @ str_nat (Suc n))
      else name)"
  by pat_completeness auto
termination
proof (relation "measure (\<lambda>(base, seen, n, name).
          card {m. n < m \<and> base @ ''_'' @ str_nat m \<in> set seen}
            + (if name \<in> set seen then 1 else 0))")
  show "wf (measure (\<lambda>(base, seen, n, name).
          card {m. n < m \<and> base @ ''_'' @ str_nat m \<in> set seen}
            + (if name \<in> set seen then 1 else 0)))"
    by simp
next
  fix base :: string and seen :: "string list" and n :: nat and name :: string
  assume "name \<in> set seen"
  then show "((base, seen, Suc n, base @ ''_'' @ str_nat (Suc n)), (base, seen, n, name))
      \<in> measure (\<lambda>(base, seen, n, name).
          card {m. n < m \<and> base @ ''_'' @ str_nat m \<in> set seen}
            + (if name \<in> set seen then 1 else 0))"
    using card_later_candidates [of n base seen] by simp
qed

declare uniq_name.simps [simp del]

text \<open>
  \<^verbatim>\<open>_excel_safe_headers\<close>. \<open>header_base\<close> is the first part of the loop body: the
  label stripped, \<^verbatim>\<open>Column{i}\<close> in place of an empty one, and the bad characters
  replaced. \<open>safe_headers\<close> is the loop over \<^verbatim>\<open>enumerate(df.columns, start=1)\<close> with
  its state \<open>seen\<close> and \<open>cols_out\<close>; the result is the relabelled copy.
\<close>

definition header_base :: "nat \<Rightarrow> string \<Rightarrow> string" where
  "header_base i c =
     (let name = strip c;
          name = (if name = [] then ''Column'' @ str_nat i else name)
      in sub_bad_chars name)"

fun safe_headers :: "nat \<Rightarrow> string list \<Rightarrow> string list \<Rightarrow> string list \<Rightarrow> string list" where
  "safe_headers i [] seen cols_out = cols_out"
| "safe_headers i (c # cs) seen cols_out =
     (let name = header_base i c;
          base = name;
          name = uniq_name base seen 1 name
      in safe_headers (Suc i) cs (name # seen) (cols_out @ [name]))"

definition excel_safe_headers :: "table \<Rightarrow> table" where
  "excel_safe_headers df = df\<lparr>columns := safe_headers 1 (columns df) [] []\<rparr>"

text \<open>What the sanitation is for: a header that is not empty and has no bad character.\<close>

definition good_header :: "string \<Rightarrow> bool" where
  "good_header h = (h \<noteq> [] \<and> (\<forall>c \<in> set h. c \<notin> set excel_bad_chars))"

text \<open>
  \<^verbatim>\<open>_safe_table_name\<close>. The eight random characters \<^verbatim>\<open>str(uuid4())[:8]\<close> come from the
  parameter \<open>uuid\<close>. After the substitution only ASCII letters, digits and underscores
  are left, so \<^verbatim>\<open>isalpha\<close> is the test for an ASCII letter.
\<close>

definition is_ascii_alpha :: "char \<Rightarrow> bool" where
  "is_ascii_alpha c =
     (let n = (of_char c :: nat) in (65 \<le> n \<and> n \<le> 90) \<or> (97 \<le> n \<and> n \<le> 122))"

definition is_ascii_digit :: "char \<Rightarrow> bool" where
  "is_ascii_digit c = (let n = (of_char c :: nat) in 48 \<le> n \<and> n \<le> 57)"

definition safe_table_name :: "string \<Rightarrow> string \<Rightarrow> string" where
  "safe_table_name sheet_title uuid =
     (let base = map (\<lambda>c. if is_ascii_alpha c \<or> is_ascii_digit c \<or> c = CHR ''_''
                           then c else CHR ''_'') sheet_title;
          base = (if base = [] \<or> \<not> is_ascii_alpha (hd base) then ''T_'' @ base else base);
          base = take 80 base
      in base @ ''_'' @ take 8 uuid)"

text \<open>
  A worksheet of the workbook: its title, its grid of cells (row 1 first) and the table
  objects attached to it. A table has a display name and the range
  \<^verbatim>\<open>A1:<letter of last_col><last_row>\<close>, kept here as the two numbers.
  \<^verbatim>\<open>ws.max_row\<close> and \<^verbatim>\<open>ws.max_column\<close> are 1 on a sheet without cells.
\<close>

record xl_table =
  displayName :: string
  last_col :: nat
  last_row :: nat

record worksheet =
  title :: string
  cells :: "cell list list"
  tables :: "xl_table list"

definition max_row :: "worksheet \<Rightarrow> nat" where
  "max_row ws = (if cells ws = [] then 1 else length (cells ws))"

definition max_column :: "worksheet \<Rightarrow> nat" where
  "max_column ws = (if cells ws = [] then 1 else length (hd (cells ws)))"

text \<open>
  \<^verbatim>\<open>df.to_excel(xw, sheet_name=..., index=False)\<close> followed by \<^verbatim>\<open>load_workbook\<close>: the
  sheet holds the header row and below it one row for each row of the frame; a frame
  without columns writes no cell.
\<close>

definition to_excel :: "table \<Rightarrow> string \<Rightarrow> worksheet" where
  "to_excel df sheet_name =
     \<lparr>title = sheet_name,
      cells = (if columns df = [] then [] else map PyStr (columns df) # rows df),
      tables = []\<rparr>"

text \<open>The local function \<^verbatim>\<open>add_table\<close> of \<^verbatim>\<open>to_excel_bytes\<close>.\<close>

definition add_table :: "string \<Rightarrow> worksheet \<Rightarrow> worksheet" where
  "add_table uuid ws =
     (if max_row ws \<ge> 2 \<and> max_column ws \<ge> 1
      then ws\<lparr>tables := tables ws @
             [\<lparr>displayName = safe_table_name (title ws) uuid,
               last_col = max_column ws, last_row = max_row ws\<rparr>]\<rparr>
      else ws)"

text \<open>
  \<^verbatim>\<open>to_excel_bytes\<close>. The result stands for the bytes of the saved workbook: its three
  sheets, in order. \<open>u1\<close>, \<open>u2\<close> and \<open>u3\<close> are the random parts of the three table
  names.
\<close>

definition to_excel_bytes ::
  "string \<Rightarrow> string \<Rightarrow> string \<Rightarrow> itable \<Rightarrow> itable \<Rightarrow> table \<Rightarrow> worksheet list" where
  "to_excel_bytes u1 u2 u3 df_old_idx df_new_idx df_added_delay =
     (let df_old_out = excel_safe_headers (reset_index df_old_idx);
          df_new_out = excel_safe_headers (reset_index df_new_idx);
          df_add_out = excel_safe_headers df_added_delay;
          ws_old = to_excel df_old_out ''Oude_invoer'';
          ws_new = to_excel df_new_out ''Nieuwe_invoer'';
          ws_add = to_excel df_add_out ''Nieuwe_rijen_Delay_gt_0''
      in [add_table u1 ws_old, add_table u2 ws_new, add_table u3 ws_add])"

section \<open>Export over a store of frames\<close>

text \<open>
  Python passes frames by reference, and \<^verbatim>\<open>out.columns = cols_out\<close> changes a frame in
  place. To see which frames the export changes, the frames live in a store: a list of
  frames, a reference being a position in it. A new frame is put at the end of the
  store; an operation on a reference that is not in the store, or on the wrong kind of
  frame, gives \<open>None\<close>.
\<close>

datatype frame = Plain table | Keyed itable

type_synonym store = "frame list"

text \<open>
  \<^verbatim>\<open>df.reset_index()\<close> returns a new frame; the program calls it on key-indexed frames.
\<close>

definition st_reset_index :: "store \<Rightarrow> nat \<Rightarrow> (nat \<times> store) option" where
  "st_reset_index st df =
     (if df < length st
      then (case st ! df of
              Keyed t \<Rightarrow> Some (length st, st @ [Plain (reset_index t)])
            | Plain t \<Rightarrow> None)
      else None)"

text \<open>\<^verbatim>\<open>df.copy()\<close> returns a new frame with the same content.\<close>

definition st_copy :: "store \<Rightarrow> nat \<Rightarrow> (nat \<times> store) option" where
  "st_copy st df = (if df < length st then Some (length st, st @ [st ! df]) else None)"

text \<open>\<^verbatim>\<open>df.columns\<close>\<close>

definition st_columns :: "store \<Rightarrow> nat \<Rightarrow> string list option" where
  "st_columns st df =
     (if df < length st
      then (case st ! df of Plain t \<Rightarrow> Some (columns t) | Keyed t \<Rightarrow> Some (icolumns t))
      else None)"

text \<open>
  \<^verbatim>\<open>df.columns = cols\<close> changes the frame \<open>df\<close> refers to, in place; pandas raises
  when the number of labels is not the number of columns.
\<close>

definition st_set_columns :: "store \<Rightarrow> nat \<Rightarrow> string list \<Rightarrow> store option" where
  "st_set_columns st df cols =
     (if df < length st
      then (case st ! df of
              Plain t \<Rightarrow>
                if length cols = length (columns t)
                then Some (st[df := Plain (t\<lparr>columns := cols\<rparr>)]) else None
            | Keyed t \<Rightarrow>
                if length cols = length (icolumns t)
                then Some (st[df := Keyed (t\<lparr>icolumns := cols\<rparr>)]) else None)
      else None)"

text \<open>\<^verbatim>\<open>_excel_safe_headers\<close> on references: the headers are computed, then set on a copy.\<close>

definition st_excel_safe_headers :: "store \<Rightarrow> nat \<Rightarrow> (nat \<times> store) option" where
  "st_excel_safe_headers st df =
     do {
       cols \<leftarrow> st_columns st df;
       let cols_out = safe_headers 1 cols [] [];
       (out, st) \<leftarrow> st_copy st df;
       st \<leftarrow> st_set_columns st out cols_out;
       Some (out, st)
     }"

text \<open>\<^verbatim>\<open>df.to_excel(..., index=False)\<close> reads the frame; the index is not written.\<close>

definition st_to_excel :: "store \<Rightarrow> nat \<Rightarrow> string \<Rightarrow> worksheet option" where
  "st_to_excel st df sheet_name =
     (if df < length st
      then (case st ! df of
              Plain t \<Rightarrow> Some (to_excel t sheet_name)
            | Keyed t \<Rightarrow> Some (to_excel \<lparr>columns = icolumns t, rows = map snd (irows t)\<rparr> sheet_name))
      else None)"

text \<open>\<^verbatim>\<open>to_excel_bytes\<close> on references: the workbook and the store it leaves.\<close>

definition st_to_excel_bytes ::
  "string \<Rightarrow> string \<Rightarrow> string \<Rightarrow> store \<Rightarrow> nat \<Rightarrow> nat \<Rightarrow> nat \<Rightarrow> (worksheet list \<times> store) option" where
  "st_to_excel_bytes u1 u2 u3 st df_old_idx df_new_idx df_added_delay =
     do {
       (old_reset, st) \<leftarrow> st_reset_index st df_old_idx;
       (df_old_out, st) \<leftarrow> st_excel_safe_headers st old_reset;
       (new_reset, st) \<leftarrow> st_reset_index st df_new_idx;
       (df_new_out, st) \<leftarrow> st_excel_safe_headers st new_reset;
       (df_add_out, st) \<leftarrow> st_excel_safe_headers st df_added_delay;
       ws_old \<leftarrow> st_to_excel st df_old_out ''Oude_invoer'';
       ws_new \<leftarrow> st_to_excel st df_new_out ''Nieuwe_invoer'';
       ws_add \<leftarrow> st_to_excel st df_add_out ''Nieuwe_rijen_Delay_gt_0'';
       Some ([add_table u1 ws_old, add_table u2 ws_new, add_table u3 ws_add], st)
     }"

section \<open>Prepared frames\<close>

text \<open>
  What \<^verbatim>\<open>_prepare\<close> establishes for each frame it returns: after
  \<^verbatim>\<open>drop_duplicates\<close> no two rows share a key, the index name and the column labels
  are pairwise different, and every row has one cell per column.
\<close>

definition key_indexed :: "itable \<Rightarrow> bool" where
  "key_indexed t =
     (distinct (map fst (irows t)) \<and> distinct (index_name t # icolumns t)
      \<and> list_all (\<lambda>r. length (snd r) = length (icolumns t)) (irows t))"

section \<open>Column canonicalization is idempotent\<close>

lemma norm_item_number: "norm_key_name ''Item number'' = ''item number''"
  by code_simp

lemma norm_delay_days: "norm_key_name ''Delay (days)'' = ''delay(days)''"
  by code_simp

lemma norm_number: "norm_key_name ''Number'' = ''number''"
  by code_simp

lemma canon_name_cases:
  "canon_name c = ''Item number'' \<or> canon_name c = ''Delay (days)''
     \<or> canon_name c = ''Number'' \<or> canon_name c = c"
  by (simp add: canon_name_def Let_def)

lemma canon_name_idem: "canon_name (canon_name c) = canon_name c"
proof -
  have a: "canon_name ''Item number'' = ''Item number''"
    by (simp add: canon_name_def norm_item_number)
  have b: "canon_name ''Delay (days)'' = ''Delay (days)''"
    by (simp add: canon_name_def norm_delay_days)
  have d: "canon_name ''Number'' = ''Number''"
    by (simp add: canon_name_def norm_number)
  from canon_name_cases [of c] a b d show ?thesis
    by metis
qed

text \<open>
  C8. Canonicalizing the columns of a frame that is already the output of
  canonicalization gives the same frame: the same labels and the same rows.
\<close>

theorem canon_columns_idempotent:
  "canon_columns (canon_columns df) = canon_columns df"
  by (simp add: canon_columns_def canon_name_idem)

section \<open>Key normalization\<close>

lemma digit_char_cases: "d < 10 \<Longrightarrow> digit_char d \<in> set ''0123456789''"
  unfolding digit_char_def by (rule nth_mem) simp

lemma str_nat_digits: "set (str_nat n) \<subseteq> set ''0123456789''"
proof (induction n rule: str_nat.induct)
  case (1 n)
  show ?case
  proof (cases "n < 10")
    case True
    then show ?thesis
      using digit_char_cases [of n] by (subst str_nat.simps) simp
  next
    case False
    have "n mod 10 < 10" by simp
    then have "digit_char (n mod 10) \<in> set ''0123456789''"
      by (rule digit_char_cases)
    then show ?thesis
      using False "1.IH" by (subst str_nat.simps) simp
  qed
qed

lemma str_int_no_point: "CHR ''.'' \<notin> set (str_int n)"
  using str_nat_digits [of "nat n"] str_nat_digits [of "nat (- n)"]
  by (auto simp: str_int_def)

lemma clean_integral_float: "clean_key_value fr (PyFloat (Finite (of_int n))) = str_int n"
  by (simp add: clean_key_value_def isnan_def)

lemma is_integer_value: "is_integer f \<Longrightarrow> \<exists>n. f = Finite (of_int n)"
  by (cases f) (auto intro: sym)

lemma scenario_c_prepare:
  "prepare fr \<lparr>columns = [''Item number''], rows = [[PyFloat (Finite 1001)]]\<rparr>
      \<lparr>columns = [''Item number''], rows = [[PyStr ''1001'']]\<rparr> ''Item number''
   = Inr (\<lparr>index_name = ''Item number'', icolumns = [], irows = [(''1001'', [])]\<rparr>,
          \<lparr>index_name = ''Item number'', icolumns = [], irows = [(''1001'', [])]\<rparr>,
          [''Item number''])"
  by code_simp

lemma scenario_c_added:
  "rows (new_rows_with_delay parse
          \<lparr>index_name = ''Item number'', icolumns = [], irows = [(''1001'', [])]\<rparr>
          \<lparr>index_name = ''Item number'', icolumns = [], irows = [(''1001'', [])]\<rparr>) = []"
  by code_simp

section \<open>Deduplication by key\<close>

lemma set_keep_last: "set (keep_last f rs) \<subseteq> set rs"
  by (induction rs) auto

lemma keys_keep_last: "f ` set (keep_last f rs) = f ` set rs"
  by (induction rs) auto

lemma distinct_keep_last: "distinct (map f (keep_last f rs))"
proof (induction rs)
  case Nil
  show ?case by simp
next
  case (Cons r rs)
  have "f r \<notin> f ` set rs \<Longrightarrow> f r \<notin> f ` set (keep_last f rs)"
    by (simp add: keys_keep_last)
  with Cons show ?case
    by auto
qed

lemma keep_last_distinct_id: "distinct (map f rs) \<Longrightarrow> keep_last f rs = rs"
  by (induction rs) auto

lemma keep_last_idem: "keep_last f (keep_last f rs) = keep_last f rs"
  by (rule keep_last_distinct_id) (rule distinct_keep_last)

lemma filter_keep_last:
  "filter (\<lambda>r. f r = k) (keep_last f rs) =
     (if k \<in> f ` set rs then [last (filter (\<lambda>r. f r = k) rs)] else [])"
proof (induction rs)
  case Nil
  show ?case by simp
next
  case (Cons r rs)
  show ?case
  proof (cases "f r \<in> f ` set rs")
    case True
    then have kl: "keep_last f (r # rs) = keep_last f rs"
      by simp
    show ?thesis
    proof (cases "f r = k")
      case eq: True
      with True have "filter (\<lambda>r. f r = k) rs \<noteq> []"
        by (auto simp: filter_empty_conv)
      then show ?thesis
        using Cons True eq kl by simp
    next
      case False
      then show ?thesis
        using Cons kl by auto
    qed
  next
    case False
    then have kl: "keep_last f (r # rs) = r # keep_last f rs"
      by simp
    show ?thesis
    proof (cases "f r = k")
      case eq: True
      with False have "k \<notin> f ` set rs"
        by simp
      then have "filter (\<lambda>r. f r = k) rs = []" "filter (\<lambda>r. f r = k) (keep_last f rs) = []"
        using Cons by (auto simp: filter_empty_conv)
      then show ?thesis
        using eq kl by simp
    next
      case neq: False
      then show ?thesis
        using Cons kl by auto
    qed
  qed
qed

text \<open>
  C4. Deduplication by key keeps, for every key of the frame, exactly one row, and it is
  the last row of the frame with that key; no two kept rows share a key, the columns are
  untouched, and deduplicating the result again changes nothing.
\<close>

theorem drop_duplicates_last_keeps_last:
  "drop_duplicates_last key (drop_duplicates_last key df) = drop_duplicates_last key df
   \<and> columns (drop_duplicates_last key df) = columns df
   \<and> set (rows (drop_duplicates_last key df)) \<subseteq> set (rows df)
   \<and> distinct (map (\<lambda>r. r ! col_index (columns df) key) (rows (drop_duplicates_last key df)))
   \<and> (\<forall>r \<in> set (rows df).
        filter (\<lambda>r'. r' ! col_index (columns df) key = r ! col_index (columns df) key)
               (rows (drop_duplicates_last key df))
        = [last (filter (\<lambda>r'. r' ! col_index (columns df) key = r ! col_index (columns df) key)
                        (rows df))])"
  by (simp add: drop_duplicates_last_def Let_def keep_last_idem set_keep_last
        distinct_keep_last filter_keep_last)

theorem drop_duplicates_last_keeps_last_witness:
  "[PyStr ''a'', PyInt 1] \<in> set (rows \<lparr>columns = [''k'', ''v''],
        rows = [[PyStr ''a'', PyInt 1], [PyStr ''b'', PyInt 2], [PyStr ''a'', PyInt 3]]\<rparr>)
   \<and> filter (\<lambda>r'. r' ! 0 = PyStr ''a'')
        (rows (drop_duplicates_last ''k'' \<lparr>columns = [''k'', ''v''],
           rows = [[PyStr ''a'', PyInt 1], [PyStr ''b'', PyInt 2], [PyStr ''a'', PyInt 3]]\<rparr>))
      = [[PyStr ''a'', PyInt 3]]"
proof -
  let ?df = "\<lparr>columns = [''k'', ''v''],
        rows = [[PyStr ''a'', PyInt 1], [PyStr ''b'', PyInt 2], [PyStr ''a'', PyInt 3]]\<rparr>"
  have m: "[PyStr ''a'', PyInt 1] \<in> set (rows ?df)"
    by simp
  have i: "col_index (columns ?df) ''k'' = 0"
    by (simp add: col_index_def)
  from drop_duplicates_last_keeps_last [of "''k''" ?df] m
  have "filter (\<lambda>r'. r' ! col_index (columns ?df) ''k'' = [PyStr ''a'', PyInt 1] ! col_index (columns ?df) ''k'')
               (rows (drop_duplicates_last ''k'' ?df))
        = [last (filter (\<lambda>r'. r' ! col_index (columns ?df) ''k'' = [PyStr ''a'', PyInt 1] ! col_index (columns ?df) ''k'')
                        (rows ?df))]"
    by blast
  then have "filter (\<lambda>r'. r' ! 0 = PyStr ''a'') (rows (drop_duplicates_last ''k'' ?df))
     = [last (filter (\<lambda>r'. r' ! 0 = PyStr ''a'') (rows ?df))]"
    unfolding i by simp
  then show ?thesis
    using m by simp
qed

section \<open>The key check of the preparer\<close>

text \<open>
  C2. When, after canonicalization and the \<open>Number\<close> fallback, the key column is
  missing from the old or from the new frame, \<^verbatim>\<open>_prepare\<close> raises the error that
  carries the key and the column lists of both frames, and returns no indexed frames;
  when the key column is in both, it returns the indexed frames and not this error.
\<close>

theorem prepare_key_check:
  "(key \<notin> set (columns (ensure_item_number (canon_columns df_old)))
      \<or> key \<notin> set (columns (ensure_item_number (canon_columns df_new)))
    \<longrightarrow> prepare fr df_old df_new key =
          Inl (KeyError key (columns (ensure_item_number (canon_columns df_old)))
                            (columns (ensure_item_number (canon_columns df_new)))))
   \<and> (key \<in> set (columns (ensure_item_number (canon_columns df_old)))
      \<and> key \<in> set (columns (ensure_item_number (canon_columns df_new)))
    \<longrightarrow> (\<exists>old new cc. prepare fr df_old df_new key = Inr (old, new, cc)))"
  by (simp add: prepare_def Let_def)

theorem prepare_key_check_witness:
  "''Item number'' \<notin> set (columns (ensure_item_number (canon_columns
       \<lparr>columns = [''Artikel'', ''Delay''], rows = [[PyStr ''7'', PyInt 2]]\<rparr>)))
   \<and> prepare (\<lambda>f. ''0.5'')
        \<lparr>columns = [''Item  Number'', ''Delay''], rows = [[PyStr ''7'', PyInt 2]]\<rparr>
        \<lparr>columns = [''Artikel'', ''Delay''], rows = [[PyStr ''7'', PyInt 2]]\<rparr>
        ''Item number''
      = Inl (KeyError ''Item number'' [''Item number'', ''Delay (days)''] [''Artikel'', ''Delay (days)''])
   \<and> ''Item number'' \<in> set (columns (ensure_item_number (canon_columns
       \<lparr>columns = [''number'', ''Delay''], rows = [[PyStr ''7'', PyInt 2]]\<rparr>)))
   \<and> (\<exists>old new cc. prepare (\<lambda>f. ''0.5'')
        \<lparr>columns = [''number'', ''Delay''], rows = [[PyStr ''7'', PyInt 2]]\<rparr>
        \<lparr>columns = [''number'', ''Delay''], rows = [[PyStr ''7'', PyInt 2]]\<rparr>
        ''Item number'' = Inr (old, new, cc))"
proof -
  let ?old = "\<lparr>columns = [''Item  Number'', ''Delay''], rows = [[PyStr ''7'', PyInt 2]]\<rparr>"
  let ?new = "\<lparr>columns = [''Artikel'', ''Delay''], rows = [[PyStr ''7'', PyInt 2]]\<rparr>"
  let ?num = "\<lparr>columns = [''number'', ''Delay''], rows = [[PyStr ''7'', PyInt 2]]\<rparr>"
  have co: "columns (ensure_item_number (canon_columns ?old)) = [''Item number'', ''Delay (days)'']"
    by code_simp
  have cn: "columns (ensure_item_number (canon_columns ?new)) = [''Artikel'', ''Delay (days)'']"
    by code_simp
  have cm: "columns (ensure_item_number (canon_columns ?num)) = [''Number'', ''Delay (days)'', ''Item number'']"
    by code_simp
  have missing: "''Item number'' \<notin> set (columns (ensure_item_number (canon_columns ?new)))"
    unfolding cn by simp
  have present: "''Item number'' \<in> set (columns (ensure_item_number (canon_columns ?num)))"
    unfolding cm by simp
  from prepare_key_check [of "''Item number''" ?old ?new "\<lambda>f. ''0.5''"] missing
  have "prepare (\<lambda>f. ''0.5'') ?old ?new ''Item number'' =
          Inl (KeyError ''Item number'' (columns (ensure_item_number (canon_columns ?old)))
                 (columns (ensure_item_number (canon_columns ?new))))"
    by blast
  then have e: "prepare (\<lambda>f. ''0.5'') ?old ?new ''Item number'' =
          Inl (KeyError ''Item number'' [''Item number'', ''Delay (days)''] [''Artikel'', ''Delay (days)''])"
    unfolding co cn .
  from prepare_key_check [of "''Item number''" ?num ?num "\<lambda>f. ''0.5''"] present
  have ok: "\<exists>old new cc. prepare (\<lambda>f. ''0.5'') ?num ?num ''Item number'' = Inr (old, new, cc)"
    by blast
  from missing e present ok show ?thesis
    by blast
qed

section \<open>The delta filter\<close>

lemma col_index_less: "c \<in> set cols \<Longrightarrow> col_index cols c < length cols"
  by (induction cols) (auto simp: col_index_def)

lemma col_index_Cons:
  "col_index (x # cols) c = (if x = c then 0 else Suc (col_index cols c))"
  by (simp add: col_index_def)

lemma added_keys_set:
  "set (sort (remdups (filter (\<lambda>k. k \<notin> set (map fst (irows old))) (map fst (irows new)))))
     = fst ` set (irows new) - fst ` set (irows old)"
  by auto

lemma added_keys_sorted_list:
  "sort (remdups (filter (\<lambda>k. k \<notin> set (map fst (irows old))) (map fst (irows new))))
     = sorted_list_of_set (fst ` set (irows new) - fst ` set (irows old))"
proof -
  have "sorted_list_of_set (set (filter (\<lambda>k. k \<notin> set (map fst (irows old))) (map fst (irows new))))
          = sort (remdups (filter (\<lambda>k. k \<notin> set (map fst (irows old))) (map fst (irows new))))"
    by (rule sorted_list_of_set_sort_remdups)
  moreover have "set (filter (\<lambda>k. k \<notin> set (map fst (irows old))) (map fst (irows new)))
          = fst ` set (irows new) - fst ` set (irows old)"
    by auto
  ultimately show ?thesis
    by simp
qed

lemma set_loc: "set (concat (map (\<lambda>k. filter (\<lambda>r. fst r = k) rs) ks)) = {r \<in> set rs. fst r \<in> set ks}"
  by auto

lemma filter_key_distinct:
  "distinct (map fst rs) \<Longrightarrow> k \<in> fst ` set rs \<Longrightarrow> map fst (filter (\<lambda>r. fst r = k) rs) = [k]"
proof (induction rs)
  case Nil
  then show ?case by simp
next
  case (Cons r rs)
  show ?case
  proof (cases "fst r = k")
    case True
    with Cons.prems have "k \<notin> fst ` set rs"
      by auto
    then have "filter (\<lambda>r. fst r = k) rs = []"
      by (auto simp: filter_empty_conv)
    with True show ?thesis
      by simp
  next
    case False
    with Cons show ?thesis
      by auto
  qed
qed

lemma keys_loc:
  "distinct (map fst rs) \<Longrightarrow> set ks \<subseteq> fst ` set rs \<Longrightarrow>
     map fst (concat (map (\<lambda>k. filter (\<lambda>r. fst r = k) rs) ks)) = ks"
  by (induction ks) (simp_all add: filter_key_distinct)

lemma distinct_loc:
  "distinct (map fst rs) \<Longrightarrow> set ks \<subseteq> fst ` set rs \<Longrightarrow> distinct ks \<Longrightarrow>
     distinct (map fst (concat (map (\<lambda>k. filter (\<lambda>r. fst r = k) rs) ks)))"
  by (simp add: keys_loc)

lemma rows_without_delay:
  "''Delay (days)'' \<notin> set (icolumns new) \<Longrightarrow>
   rows (new_rows_with_delay parse old new) =
     map (\<lambda>(k, cs). PyStr k # cs)
       (concat (map (\<lambda>k. filter (\<lambda>r. fst r = k) (irows new))
          (sort (remdups (filter (\<lambda>k. k \<notin> set (map fst (irows old))) (map fst (irows new)))))))"
  by (simp add: new_rows_with_delay_def Let_def reset_index_def)

lemma rows_with_delay:
  "''Delay (days)'' \<in> set (icolumns new) \<Longrightarrow>
   rows (new_rows_with_delay parse old new) =
     map (\<lambda>(k, cs). PyStr k # cs)
       (filter (\<lambda>(k, cs). gt0 (float_of (cs ! col_index (icolumns new) ''Delay (days)'')))
         (map (\<lambda>(k, cs). (k, cs[col_index (icolumns new) ''Delay (days)'' :=
                  PyFloat (fillna0 (to_numeric parse (cs ! col_index (icolumns new) ''Delay (days)'')))]))
           (concat (map (\<lambda>k. filter (\<lambda>r. fst r = k) (irows new))
             (sort (remdups (filter (\<lambda>k. k \<notin> set (map fst (irows old))) (map fst (irows new)))))))))"
  by (simp add: new_rows_with_delay_def Let_def reset_index_def)

lemma columns_of_added:
  "rows (new_rows_with_delay parse old new) \<noteq> [] \<Longrightarrow>
   columns (new_rows_with_delay parse old new) = index_name new # icolumns new"
  by (auto simp: new_rows_with_delay_def Let_def reset_index_def split: if_splits)

lemma delay_column_kept:
  "''Delay (days)'' \<in> set (icolumns new) \<Longrightarrow>
   ''Delay (days)'' \<in> set (columns (new_rows_with_delay parse old new))"
  by (simp add: new_rows_with_delay_def Let_def reset_index_def)

lemma rows_with_delay_set:
  assumes d: "''Delay (days)'' \<in> set (icolumns new)"
    and len: "list_all (\<lambda>r. length (snd r) = length (icolumns new)) (irows new)"
  shows "set (rows (new_rows_with_delay parse old new)) =
     (\<lambda>(k, cs). PyStr k # cs[col_index (icolumns new) ''Delay (days)'' :=
          PyFloat (fillna0 (to_numeric parse (cs ! col_index (icolumns new) ''Delay (days)'')))])
       ` {(k, cs). (k, cs) \<in> set (irows new) \<and> k \<notin> fst ` set (irows old)
            \<and> gt0 (fillna0 (to_numeric parse (cs ! col_index (icolumns new) ''Delay (days)'')))}"
proof -
  let ?i = "col_index (icolumns new) ''Delay (days)''"
  let ?K = "sort (remdups (filter (\<lambda>k. k \<notin> set (map fst (irows old))) (map fst (irows new))))"
  let ?A = "concat (map (\<lambda>k. filter (\<lambda>r. fst r = k) (irows new)) ?K)"
  let ?g = "\<lambda>(k, cs). (k, cs[?i := PyFloat (fillna0 (to_numeric parse (cs ! ?i)))])"
  let ?P = "\<lambda>(k, cs). gt0 (float_of (cs ! ?i))"
  let ?Q = "\<lambda>(k, cs). gt0 (fillna0 (to_numeric parse (cs ! ?i)))"
  have i: "?i < length (icolumns new)"
    using d by (rule col_index_less)
  have inA: "\<And>r. r \<in> set ?A \<Longrightarrow> r \<in> set (irows new)"
    by auto
  have PQ: "\<And>r. r \<in> set ?A \<Longrightarrow> ?P (?g r) = ?Q r"
  proof -
    fix r assume "r \<in> set ?A"
    then have "r \<in> set (irows new)" by (rule inA)
    with len have "length (snd r) = length (icolumns new)"
      by (simp add: list_all_iff)
    with i have "?i < length (snd r)" by simp
    then show "?P (?g r) = ?Q r"
      by (cases r) simp
  qed
  have "filter ?P (map ?g ?A) = map ?g (filter (?P \<circ> ?g) ?A)"
    by (simp add: filter_map)
  also have "filter (?P \<circ> ?g) ?A = filter ?Q ?A"
    by (rule filter_cong) (simp_all add: PQ del: set_concat)
  finally have fm: "filter ?P (map ?g ?A) = map ?g (filter ?Q ?A)" .
  have A: "set ?A = {r \<in> set (irows new). fst r \<notin> fst ` set (irows old)}"
    unfolding set_loc added_keys_set by auto
  have "set (rows (new_rows_with_delay parse old new))
          = (\<lambda>(k, cs). PyStr k # cs) ` set (filter ?P (map ?g ?A))"
    unfolding rows_with_delay [OF d] by simp
  also have "\<dots> = (\<lambda>(k, cs). PyStr k # cs) ` ?g ` {r \<in> set ?A. ?Q r}"
    unfolding fm by simp
  also have "\<dots> = (\<lambda>(k, cs). PyStr k # cs[?i := PyFloat (fillna0 (to_numeric parse (cs ! ?i)))])
       ` {(k, cs). (k, cs) \<in> set (irows new) \<and> k \<notin> fst ` set (irows old) \<and> ?Q (k, cs)}"
    unfolding A by (force simp: image_iff)
  finally show ?thesis
    by simp
qed

lemma rows_without_delay_set:
  assumes d: "''Delay (days)'' \<notin> set (icolumns new)"
  shows "set (rows (new_rows_with_delay parse old new)) =
     (\<lambda>(k, cs). PyStr k # cs) ` {r \<in> set (irows new). fst r \<notin> fst ` set (irows old)}"
proof -
  have "{r \<in> set (irows new).
          fst r \<in> set (sort (remdups (filter (\<lambda>k. k \<notin> set (map fst (irows old))) (map fst (irows new)))))}
        = {r \<in> set (irows new). fst r \<notin> fst ` set (irows old)}"
    unfolding added_keys_set by auto
  then show ?thesis
    unfolding rows_without_delay [OF d] set_map set_loc by simp
qed

lemma added_row_shape:
  assumes "r \<in> set (rows (new_rows_with_delay parse old new))"
  shows "\<exists>k cs. r = PyStr k # cs \<and> k \<in> fst ` set (irows new) - fst ` set (irows old)"
proof (cases "''Delay (days)'' \<in> set (icolumns new)")
  case True
  from assms show ?thesis
    unfolding rows_with_delay [OF True] by force
next
  case False
  from assms show ?thesis
    unfolding rows_without_delay [OF False] by force
qed

lemma delay_cell_of_added:
  assumes ki: "key_indexed new"
    and d: "''Delay (days)'' \<in> set (icolumns new)"
    and r: "r \<in> set (rows (new_rows_with_delay parse old new))"
  shows "\<exists>k cs. (k, cs) \<in> set (irows new) \<and> k \<notin> fst ` set (irows old)
           \<and> gt0 (fillna0 (to_numeric parse (cs ! col_index (icolumns new) ''Delay (days)'')))
           \<and> r = PyStr k # cs[col_index (icolumns new) ''Delay (days)'' :=
                   PyFloat (fillna0 (to_numeric parse (cs ! col_index (icolumns new) ''Delay (days)'')))]
           \<and> r ! col_index (columns (new_rows_with_delay parse old new)) ''Delay (days)''
               = PyFloat (fillna0 (to_numeric parse (cs ! col_index (icolumns new) ''Delay (days)'')))"
proof -
  let ?i = "col_index (icolumns new) ''Delay (days)''"
  from ki have len: "list_all (\<lambda>r. length (snd r) = length (icolumns new)) (irows new)"
    and dist: "distinct (index_name new # icolumns new)"
    by (simp_all add: key_indexed_def)
  from r obtain k cs where kc: "(k, cs) \<in> set (irows new)" "k \<notin> fst ` set (irows old)"
      "gt0 (fillna0 (to_numeric parse (cs ! ?i)))"
      and req: "r = PyStr k # cs[?i := PyFloat (fillna0 (to_numeric parse (cs ! ?i)))]"
    unfolding rows_with_delay_set [OF d len] by auto
  from r have "rows (new_rows_with_delay parse old new) \<noteq> []"
    by auto
  then have cols: "columns (new_rows_with_delay parse old new) = index_name new # icolumns new"
    by (rule columns_of_added)
  from dist d have "index_name new \<noteq> ''Delay (days)''"
    by auto
  then have ci: "col_index (columns (new_rows_with_delay parse old new)) ''Delay (days)'' = Suc ?i"
    unfolding cols by (simp add: col_index_Cons)
  from len kc(1) have "length cs = length (icolumns new)"
    by (auto simp: list_all_iff)
  with col_index_less [OF d] have "?i < length cs"
    by simp
  then have "r ! Suc ?i = PyFloat (fillna0 (to_numeric parse (cs ! ?i)))"
    unfolding req by simp
  with kc req ci show ?thesis
    by metis
qed

lemma gt0_not_nan: "gt0 v \<Longrightarrow> \<not> isnan v"
  by (cases v) (simp_all add: isnan_def)

lemma gt0_fillna0: "gt0 (fillna0 v) \<Longrightarrow> \<not> isnan v"
  by (cases v) (simp_all add: isnan_def fillna0_def)

text \<open>
  C1. For a prepared new frame, every row of the added-delay output has in its key column
  a key of the new frame that is not a key of the old frame. When the new frame has a
  \<open>Delay (days)\<close> column, the output has it too, and the delay of every output row,
  coerced to a number with NaN taken as 0, is greater than 0.
\<close>

theorem added_rows_keys_and_delay:
  assumes "key_indexed new"
  shows "(\<forall>r \<in> set (rows (new_rows_with_delay parse old new)).
            \<exists>k. r ! col_index (columns (new_rows_with_delay parse old new)) (index_name new) = PyStr k
               \<and> k \<in> fst ` set (irows new) - fst ` set (irows old))
       \<and> (''Delay (days)'' \<in> set (icolumns new) \<longrightarrow>
            ''Delay (days)'' \<in> set (columns (new_rows_with_delay parse old new))
            \<and> (\<forall>r \<in> set (rows (new_rows_with_delay parse old new)).
                 gt0 (fillna0 (to_numeric parse
                   (r ! col_index (columns (new_rows_with_delay parse old new)) ''Delay (days)'')))))"
proof (intro conjI ballI impI)
  fix r assume r: "r \<in> set (rows (new_rows_with_delay parse old new))"
  then have "rows (new_rows_with_delay parse old new) \<noteq> []"
    by auto
  then have "columns (new_rows_with_delay parse old new) = index_name new # icolumns new"
    by (rule columns_of_added)
  then have "col_index (columns (new_rows_with_delay parse old new)) (index_name new) = 0"
    by (simp add: col_index_Cons)
  moreover from added_row_shape [OF r] obtain k cs
    where "r = PyStr k # cs" "k \<in> fst ` set (irows new) - fst ` set (irows old)"
    by blast
  ultimately
  show "\<exists>k. r ! col_index (columns (new_rows_with_delay parse old new)) (index_name new) = PyStr k
               \<and> k \<in> fst ` set (irows new) - fst ` set (irows old)"
    by simp
next
  assume "''Delay (days)'' \<in> set (icolumns new)"
  then show "''Delay (days)'' \<in> set (columns (new_rows_with_delay parse old new))"
    by (rule delay_column_kept)
next
  fix r
  assume d: "''Delay (days)'' \<in> set (icolumns new)"
    and r: "r \<in> set (rows (new_rows_with_delay parse old new))"
  from delay_cell_of_added [OF assms d r] obtain v
    where v: "gt0 (fillna0 v)"
      "r ! col_index (columns (new_rows_with_delay parse old new)) ''Delay (days)'' = PyFloat (fillna0 v)"
    by blast
  from v(1) have "\<not> isnan (fillna0 v)"
    by (rule gt0_not_nan)
  then have "fillna0 (fillna0 v) = fillna0 v"
    by (simp add: fillna0_def)
  with v show "gt0 (fillna0 (to_numeric parse
        (r ! col_index (columns (new_rows_with_delay parse old new)) ''Delay (days)'')))"
    by simp
qed

text \<open>
  C5. When the prepared new frame has no \<open>Delay (days)\<close> column, the rows of the
  output are exactly the rows of the new frame whose key is not a key of the old frame,
  one for each such key, in ascending order of the keys; nothing is filtered.
\<close>

theorem added_rows_without_delay_column:
  assumes ki: "key_indexed new" and d: "''Delay (days)'' \<notin> set (icolumns new)"
  shows "set (rows (new_rows_with_delay parse old new)) =
           (\<lambda>(k, cs). PyStr k # cs) ` {r \<in> set (irows new). fst r \<notin> fst ` set (irows old)}
       \<and> map hd (rows (new_rows_with_delay parse old new)) =
           map PyStr (sorted_list_of_set (fst ` set (irows new) - fst ` set (irows old)))"
proof
  show "set (rows (new_rows_with_delay parse old new)) =
           (\<lambda>(k, cs). PyStr k # cs) ` {r \<in> set (irows new). fst r \<notin> fst ` set (irows old)}"
    using d by (rule rows_without_delay_set)
next
  let ?K = "sort (remdups (filter (\<lambda>k. k \<notin> set (map fst (irows old))) (map fst (irows new))))"
  let ?A = "concat (map (\<lambda>k. filter (\<lambda>r. fst r = k) (irows new)) ?K)"
  from ki have dist: "distinct (map fst (irows new))"
    by (simp add: key_indexed_def)
  have sub: "set ?K \<subseteq> fst ` set (irows new)"
    unfolding added_keys_set by auto
  have "map hd (rows (new_rows_with_delay parse old new)) = map (\<lambda>r. PyStr (fst r)) ?A"
    unfolding rows_without_delay [OF d] by (simp add: case_prod_beta comp_def)
  also have "\<dots> = map PyStr (map fst ?A)"
    by (simp add: comp_def)
  also have "map fst ?A = ?K"
    using dist sub by (rule keys_loc)
  finally show "map hd (rows (new_rows_with_delay parse old new)) =
           map PyStr (sorted_list_of_set (fst ` set (irows new) - fst ` set (irows old)))"
    unfolding added_keys_sorted_list .
qed

text \<open>
  C10. When the prepared new frame has a \<open>Delay (days)\<close> column, the output rows are
  the new-only rows with the delay cell replaced by its numeric coercion (NaN taken as
  0) and kept when that number is greater than 0: the delay cell of every output row is
  a number, and a row whose delay does not coerce to a number is not in the output.
\<close>

theorem added_rows_carry_coerced_delay:
  assumes ki: "key_indexed new" and d: "''Delay (days)'' \<in> set (icolumns new)"
  shows "set (rows (new_rows_with_delay parse old new)) =
           (\<lambda>(k, cs). PyStr k # cs[col_index (icolumns new) ''Delay (days)'' :=
                PyFloat (fillna0 (to_numeric parse (cs ! col_index (icolumns new) ''Delay (days)'')))])
             ` {(k, cs). (k, cs) \<in> set (irows new) \<and> k \<notin> fst ` set (irows old)
                  \<and> gt0 (fillna0 (to_numeric parse (cs ! col_index (icolumns new) ''Delay (days)'')))}
       \<and> (\<forall>r \<in> set (rows (new_rows_with_delay parse old new)).
            \<exists>v. r ! col_index (columns (new_rows_with_delay parse old new)) ''Delay (days)'' = PyFloat v
               \<and> \<not> isnan v \<and> gt0 v)
       \<and> (\<forall>(k, cs) \<in> set (irows new).
            isnan (to_numeric parse (cs ! col_index (icolumns new) ''Delay (days)''))
            \<longrightarrow> (\<forall>r \<in> set (rows (new_rows_with_delay parse old new)). hd r \<noteq> PyStr k))"
proof (intro conjI ballI)
  from ki have len: "list_all (\<lambda>r. length (snd r) = length (icolumns new)) (irows new)"
    by (simp add: key_indexed_def)
  from d len show "set (rows (new_rows_with_delay parse old new)) =
           (\<lambda>(k, cs). PyStr k # cs[col_index (icolumns new) ''Delay (days)'' :=
                PyFloat (fillna0 (to_numeric parse (cs ! col_index (icolumns new) ''Delay (days)'')))])
             ` {(k, cs). (k, cs) \<in> set (irows new) \<and> k \<notin> fst ` set (irows old)
                  \<and> gt0 (fillna0 (to_numeric parse (cs ! col_index (icolumns new) ''Delay (days)'')))}"
    by (rule rows_with_delay_set)
next
  fix r assume r: "r \<in> set (rows (new_rows_with_delay parse old new))"
  from delay_cell_of_added [OF ki d r] obtain v
    where "gt0 v"
      "r ! col_index (columns (new_rows_with_delay parse old new)) ''Delay (days)'' = PyFloat v"
    by blast
  then show "\<exists>v. r ! col_index (columns (new_rows_with_delay parse old new)) ''Delay (days)'' = PyFloat v
               \<and> \<not> isnan v \<and> gt0 v"
    using gt0_not_nan by blast
next
  fix x assume x: "x \<in> set (irows new)"
  from ki have dist: "distinct (map fst (irows new))"
    by (simp add: key_indexed_def)
  show "case x of (k, cs) \<Rightarrow>
          isnan (to_numeric parse (cs ! col_index (icolumns new) ''Delay (days)''))
          \<longrightarrow> (\<forall>r \<in> set (rows (new_rows_with_delay parse old new)). hd r \<noteq> PyStr k)"
  proof (cases x)
    case (Pair k cs)
    have "\<forall>r \<in> set (rows (new_rows_with_delay parse old new)). hd r \<noteq> PyStr k"
      if nan: "isnan (to_numeric parse (cs ! col_index (icolumns new) ''Delay (days)''))"
    proof
      fix r assume r: "r \<in> set (rows (new_rows_with_delay parse old new))"
      from delay_cell_of_added [OF ki d r] obtain k' cs'
        where kc: "(k', cs') \<in> set (irows new)"
          "gt0 (fillna0 (to_numeric parse (cs' ! col_index (icolumns new) ''Delay (days)'')))"
          and hd: "hd r = PyStr k'"
        by force
      show "hd r \<noteq> PyStr k"
      proof
        assume "hd r = PyStr k"
        with hd have "k' = k" by simp
        with kc(1) x Pair dist have "cs' = cs"
          by (metis eq_key_imp_eq_value)
        with kc(2) have "\<not> isnan (to_numeric parse (cs ! col_index (icolumns new) ''Delay (days)''))"
          using gt0_fillna0 by blast
        with nan show False by simp
      qed
    qed
    with Pair show ?thesis by simp
  qed
qed

theorem added_rows_keys_and_delay_witness:
  "key_indexed \<lparr>index_name = ''Item number'', icolumns = [''Delay (days)''],
       irows = [(''1'', [PyInt 0]), (''2'', [PyStr ''x'']), (''3'', [PyInt 5]), (''4'', [PyStr ''abc''])]\<rparr>
   \<and> ''Delay (days)'' \<in> set (icolumns \<lparr>index_name = ''Item number'', icolumns = [''Delay (days)''],
       irows = [(''1'', [PyInt 0]), (''2'', [PyStr ''x'']), (''3'', [PyInt 5]), (''4'', [PyStr ''abc''])]\<rparr>)
   \<and> [PyStr ''3'', PyFloat (Finite 5)] \<in> set (rows (new_rows_with_delay (\<lambda>s. NaN)
        \<lparr>index_name = ''Item number'', icolumns = [''Delay (days)''],
          irows = [(''1'', [PyInt 0]), (''2'', [PyInt 1])]\<rparr>
        \<lparr>index_name = ''Item number'', icolumns = [''Delay (days)''],
          irows = [(''1'', [PyInt 0]), (''2'', [PyStr ''x'']), (''3'', [PyInt 5]), (''4'', [PyStr ''abc''])]\<rparr>))
   \<and> ''3'' \<in> fst ` set [(''1'', [PyInt 0]), (''2'', [PyStr ''x'']), (''3'', [PyInt 5]), (''4'', [PyStr ''abc''])]
            - fst ` set [(''1'', [PyInt 0]), (''2'', [PyInt 1])]
   \<and> gt0 (fillna0 (to_numeric (\<lambda>s. NaN) (PyFloat (Finite 5))))"
proof -
  let ?old = "\<lparr>index_name = ''Item number'', icolumns = [''Delay (days)''],
          irows = [(''1'', [PyInt 0]), (''2'', [PyInt 1])]\<rparr>"
  let ?new = "\<lparr>index_name = ''Item number'', icolumns = [''Delay (days)''],
          irows = [(''1'', [PyInt 0]), (''2'', [PyStr ''x'']), (''3'', [PyInt 5]), (''4'', [PyStr ''abc''])]\<rparr>"
  let ?out = "new_rows_with_delay (\<lambda>s. NaN) ?old ?new"
  let ?r = "[PyStr ''3'', PyFloat (Finite 5)]"
  have ki: "key_indexed ?new"
    by code_simp
  have d: "''Delay (days)'' \<in> set (icolumns ?new)"
    by simp
  have out: "?out = \<lparr>columns = [''Item number'', ''Delay (days)''], rows = [?r]\<rparr>"
    by code_simp
  then have r: "?r \<in> set (rows ?out)"
    by simp
  have ci: "col_index (columns ?out) (index_name ?new) = 0"
    "col_index (columns ?out) ''Delay (days)'' = 1"
    unfolding out by (simp_all add: col_index_def)
  note t = added_rows_keys_and_delay [OF ki, of "\<lambda>s. NaN" ?old]
  from t r obtain k where "?r ! col_index (columns ?out) (index_name ?new) = PyStr k"
    and k: "k \<in> fst ` set (irows ?new) - fst ` set (irows ?old)"
    by blast
  then have "k = ''3''"
    unfolding ci by simp
  with k have mem: "''3'' \<in> fst ` set (irows ?new) - fst ` set (irows ?old)"
    by simp
  from t d r have "gt0 (fillna0 (to_numeric (\<lambda>s. NaN) (?r ! col_index (columns ?out) ''Delay (days)'')))"
    by blast
  then have g: "gt0 (fillna0 (to_numeric (\<lambda>s. NaN) (PyFloat (Finite 5))))"
    unfolding ci by simp
  from ki d r mem g show ?thesis
    by simp
qed

theorem added_rows_without_delay_column_witness:
  "key_indexed \<lparr>index_name = ''Item number'', icolumns = [''Qty''],
       irows = [(''4'', [PyStr ''abc'']), (''1'', [PyInt 0]), (''3'', [PyNone])]\<rparr>
   \<and> ''Delay (days)'' \<notin> set (icolumns \<lparr>index_name = ''Item number'', icolumns = [''Qty''],
       irows = [(''4'', [PyStr ''abc'']), (''1'', [PyInt 0]), (''3'', [PyNone])]\<rparr>)
   \<and> map hd (rows (new_rows_with_delay (\<lambda>s. NaN)
        \<lparr>index_name = ''Item number'', icolumns = [''Qty''], irows = [(''1'', [PyInt 0])]\<rparr>
        \<lparr>index_name = ''Item number'', icolumns = [''Qty''],
          irows = [(''4'', [PyStr ''abc'']), (''1'', [PyInt 0]), (''3'', [PyNone])]\<rparr>))
      = [PyStr ''3'', PyStr ''4'']
   \<and> set (rows (new_rows_with_delay (\<lambda>s. NaN)
        \<lparr>index_name = ''Item number'', icolumns = [''Qty''], irows = [(''1'', [PyInt 0])]\<rparr>
        \<lparr>index_name = ''Item number'', icolumns = [''Qty''],
          irows = [(''4'', [PyStr ''abc'']), (''1'', [PyInt 0]), (''3'', [PyNone])]\<rparr>))
      = {[PyStr ''4'', PyStr ''abc''], [PyStr ''3'', PyNone]}"
proof -
  let ?old = "\<lparr>index_name = ''Item number'', icolumns = [''Qty''], irows = [(''1'', [PyInt 0])]\<rparr>"
  let ?new = "\<lparr>index_name = ''Item number'', icolumns = [''Qty''],
          irows = [(''4'', [PyStr ''abc'']), (''1'', [PyInt 0]), (''3'', [PyNone])]\<rparr>"
  have ki: "key_indexed ?new"
    by code_simp
  have d: "''Delay (days)'' \<notin> set (icolumns ?new)"
    by simp
  note t = added_rows_without_delay_column [OF ki d, of "\<lambda>s. NaN" ?old]
  have keys: "sorted_list_of_set (fst ` set (irows ?new) - fst ` set (irows ?old)) = [''3'', ''4'']"
    by code_simp
  have new_only: "{r \<in> set (irows ?new). fst r \<notin> fst ` set (irows ?old)}
      = {(''4'', [PyStr ''abc'']), (''3'', [PyNone])}"
    by auto
  from t have h: "map hd (rows (new_rows_with_delay (\<lambda>s. NaN) ?old ?new)) = [PyStr ''3'', PyStr ''4'']"
    unfolding keys by simp
  from t have s: "set (rows (new_rows_with_delay (\<lambda>s. NaN) ?old ?new))
      = {[PyStr ''4'', PyStr ''abc''], [PyStr ''3'', PyNone]}"
    unfolding new_only by simp
  from ki d h s show ?thesis
    by blast
qed

theorem added_rows_carry_coerced_delay_witness:
  "key_indexed \<lparr>index_name = ''Item number'', icolumns = [''Delay (days)''],
       irows = [(''1'', [PyInt 0]), (''3'', [PyStr ''5'']), (''4'', [PyStr ''abc''])]\<rparr>
   \<and> ''Delay (days)'' \<in> set (icolumns \<lparr>index_name = ''Item number'', icolumns = [''Delay (days)''],
       irows = [(''1'', [PyInt 0]), (''3'', [PyStr ''5'']), (''4'', [PyStr ''abc''])]\<rparr>)
   \<and> rows (new_rows_with_delay (\<lambda>s. if s = ''5'' then Finite 5 else NaN)
        \<lparr>index_name = ''Item number'', icolumns = [''Delay (days)''], irows = [(''1'', [PyInt 0])]\<rparr>
        \<lparr>index_name = ''Item number'', icolumns = [''Delay (days)''],
          irows = [(''1'', [PyInt 0]), (''3'', [PyStr ''5'']), (''4'', [PyStr ''abc''])]\<rparr>)
      = [[PyStr ''3'', PyFloat (Finite 5)]]
   \<and> (''4'', [PyStr ''abc'']) \<in> set [(''1'', [PyInt 0]), (''3'', [PyStr ''5'']), (''4'', [PyStr ''abc''])]
   \<and> isnan (to_numeric (\<lambda>s. if s = ''5'' then Finite 5 else NaN) (PyStr ''abc''))
   \<and> hd [PyStr ''3'', PyFloat (Finite 5)] \<noteq> PyStr ''4''
   \<and> \<not> isnan (Finite 5) \<and> gt0 (Finite 5)"
proof -
  let ?p = "\<lambda>s. if s = ''5'' then Finite 5 else NaN"
  let ?old = "\<lparr>index_name = ''Item number'', icolumns = [''Delay (days)''], irows = [(''1'', [PyInt 0])]\<rparr>"
  let ?new = "\<lparr>index_name = ''Item number'', icolumns = [''Delay (days)''],
          irows = [(''1'', [PyInt 0]), (''3'', [PyStr ''5'']), (''4'', [PyStr ''abc''])]\<rparr>"
  let ?out = "new_rows_with_delay ?p ?old ?new"
  let ?r = "[PyStr ''3'', PyFloat (Finite 5)]"
  have ki: "key_indexed ?new"
    by code_simp
  have d: "''Delay (days)'' \<in> set (icolumns ?new)"
    by simp
  have out: "?out = \<lparr>columns = [''Item number'', ''Delay (days)''], rows = [?r]\<rparr>"
    by code_simp
  then have r: "?r \<in> set (rows ?out)" and rs: "rows ?out = [?r]"
    by simp_all
  have ci: "col_index (columns ?out) ''Delay (days)'' = 1" "col_index (icolumns ?new) ''Delay (days)'' = 0"
    unfolding out by (simp_all add: col_index_def)
  have x: "(''4'', [PyStr ''abc'']) \<in> set (irows ?new)"
    by simp
  have nan: "isnan (to_numeric ?p ([PyStr ''abc''] ! col_index (icolumns ?new) ''Delay (days)''))"
    unfolding ci by (simp add: isnan_def)
  note t = added_rows_carry_coerced_delay [OF ki d, of ?p ?old]
  from t r obtain v where "?r ! col_index (columns ?out) ''Delay (days)'' = PyFloat v"
    and v: "\<not> isnan v" "gt0 v"
    by blast
  then have "v = Finite 5"
    unfolding ci by simp
  with v have v5: "\<not> isnan (Finite 5)" "gt0 (Finite 5)"
    by simp_all
  from t x nan r have "hd ?r \<noteq> PyStr ''4''"
    by blast
  with ki d rs x nan v5 show ?thesis
    unfolding ci by simp
qed

section \<open>Header sanitation\<close>

lemma uniq_name_spec:
  "(name \<notin> set seen \<and> uniq_name base seen n name = name)
   \<or> (name \<in> set seen \<and>
       (\<exists>k>n. uniq_name base seen n name = base @ ''_'' @ str_nat k
              \<and> base @ ''_'' @ str_nat k \<notin> set seen
              \<and> (\<forall>j. n < j \<and> j < k \<longrightarrow> base @ ''_'' @ str_nat j \<in> set seen)))"
proof (induction base seen n name rule: uniq_name.induct)
  case (1 base seen n name)
  show ?case
  proof (cases "name \<in> set seen")
    case False
    then show ?thesis
      by (simp add: uniq_name.simps)
  next
    case True
    let ?next = "base @ ''_'' @ str_nat (Suc n)"
    have step: "uniq_name base seen n name = uniq_name base seen (Suc n) ?next"
      using True by (subst uniq_name.simps) simp
    from "1.IH" [OF True]
    consider (stop) "?next \<notin> set seen" "uniq_name base seen (Suc n) ?next = ?next"
      | (go) k where "Suc n < k" "uniq_name base seen (Suc n) ?next = base @ ''_'' @ str_nat k"
          "base @ ''_'' @ str_nat k \<notin> set seen"
          "\<forall>j. Suc n < j \<and> j < k \<longrightarrow> base @ ''_'' @ str_nat j \<in> set seen"
          "?next \<in> set seen"
      by blast
    then show ?thesis
    proof cases
      case stop
      have "n < Suc n \<and> uniq_name base seen n name = ?next \<and> ?next \<notin> set seen
              \<and> (\<forall>j. n < j \<and> j < Suc n \<longrightarrow> base @ ''_'' @ str_nat j \<in> set seen)"
        using stop step by auto
      then have "\<exists>k>n. uniq_name base seen n name = base @ ''_'' @ str_nat k
              \<and> base @ ''_'' @ str_nat k \<notin> set seen
              \<and> (\<forall>j. n < j \<and> j < k \<longrightarrow> base @ ''_'' @ str_nat j \<in> set seen)"
        by (rule exI [of _ "Suc n"])
      with True show ?thesis
        by (rule disjI2 [OF conjI])
    next
      case go
      have "\<forall>j. n < j \<and> j < k \<longrightarrow> base @ ''_'' @ str_nat j \<in> set seen"
      proof (intro allI impI)
        fix j assume j: "n < j \<and> j < k"
        show "base @ ''_'' @ str_nat j \<in> set seen"
        proof (cases "j = Suc n")
          case True
          with go(5) show ?thesis by simp
        next
          case False
          with j have "Suc n < j \<and> j < k" by auto
          with go(4) show ?thesis by blast
        qed
      qed
      moreover from go(1) have "n < k" by simp
      moreover have "uniq_name base seen n name = base @ ''_'' @ str_nat k"
        using step go(2) by (rule trans)
      ultimately have "n < k \<and> uniq_name base seen n name = base @ ''_'' @ str_nat k
              \<and> base @ ''_'' @ str_nat k \<notin> set seen
              \<and> (\<forall>j. n < j \<and> j < k \<longrightarrow> base @ ''_'' @ str_nat j \<in> set seen)"
        using go(3) by (intro conjI)
      then have "\<exists>k>n. uniq_name base seen n name = base @ ''_'' @ str_nat k
              \<and> base @ ''_'' @ str_nat k \<notin> set seen
              \<and> (\<forall>j. n < j \<and> j < k \<longrightarrow> base @ ''_'' @ str_nat j \<in> set seen)"
        by (rule exI [of _ k])
      with True show ?thesis
        by (rule disjI2 [OF conjI])
    qed
  qed
qed

lemma uniq_name_fresh: "uniq_name base seen n name \<notin> set seen"
proof -
  from uniq_name_spec [of name seen base n]
  consider "name \<notin> set seen" "uniq_name base seen n name = name"
    | k where "uniq_name base seen n name = base @ ''_'' @ str_nat k"
        "base @ ''_'' @ str_nat k \<notin> set seen"
    by blast
  then show ?thesis
    by cases simp_all
qed

lemma uniq_name_cong_set:
  "set seen = set seen' \<Longrightarrow> uniq_name base seen n name = uniq_name base seen' n name"
proof (induction base seen n name rule: uniq_name.induct)
  case (1 base seen n name)
  show ?case
  proof (cases "name \<in> set seen")
    case True
    with "1.prems" have "name \<in> set seen'" by simp
    with True "1.IH" [OF True "1.prems"] show ?thesis
      by (subst uniq_name.simps, subst (2) uniq_name.simps) simp
  next
    case False
    with "1.prems" have "name \<notin> set seen'" by simp
    with False show ?thesis
      by (simp add: uniq_name.simps)
  qed
qed

lemma underscore_ok: "CHR ''_'' \<notin> set excel_bad_chars"
  by (simp add: excel_bad_chars_def)

lemma digit_ok: "c \<in> set ''0123456789'' \<Longrightarrow> c \<notin> set excel_bad_chars"
  by (auto simp: excel_bad_chars_def)

lemma column_ok: "c \<in> set ''Column'' \<Longrightarrow> c \<notin> set excel_bad_chars"
  by (auto simp: excel_bad_chars_def)

lemma sub_bad_chars_clean: "c \<in> set (sub_bad_chars s) \<Longrightarrow> c \<notin> set excel_bad_chars"
  unfolding sub_bad_chars_def using underscore_ok by (auto split: if_splits)

lemma sub_bad_chars_nonempty: "s \<noteq> [] \<Longrightarrow> sub_bad_chars s \<noteq> []"
  by (simp add: sub_bad_chars_def)

lemma str_nat_nonempty: "str_nat n \<noteq> []"
  by (subst str_nat.simps) simp

lemma str_nat_clean: "c \<in> set (str_nat n) \<Longrightarrow> c \<notin> set excel_bad_chars"
  using str_nat_digits [of n] digit_ok by blast

lemma sub_bad_chars_id: "(\<And>c. c \<in> set s \<Longrightarrow> c \<notin> set excel_bad_chars) \<Longrightarrow> sub_bad_chars s = s"
  unfolding sub_bad_chars_def by (rule map_idI) simp

lemma column_name_clean: "sub_bad_chars (''Column'' @ str_nat i) = ''Column'' @ str_nat i"
proof (rule sub_bad_chars_id)
  fix c assume "c \<in> set (''Column'' @ str_nat i)"
  then have "c \<in> set ''Column'' \<or> c \<in> set (str_nat i)"
    by (simp only: set_append Un_iff)
  then show "c \<notin> set excel_bad_chars"
    using column_ok str_nat_clean by blast
qed

lemma header_base_nonempty: "header_base i c \<noteq> []"
proof (cases "strip c = []")
  case True
  then have "header_base i c = sub_bad_chars (''Column'' @ str_nat i)"
    by (simp only: header_base_def Let_def simp_thms if_True)
  then show ?thesis
    unfolding column_name_clean by simp
next
  case False
  then have "header_base i c = sub_bad_chars (strip c)"
    by (simp only: header_base_def Let_def simp_thms if_False)
  with False show ?thesis
    by (simp add: sub_bad_chars_nonempty)
qed

lemma header_base_clean: "x \<in> set (header_base i c) \<Longrightarrow> x \<notin> set excel_bad_chars"
  unfolding header_base_def Let_def by (rule sub_bad_chars_clean)

lemma header_base_good: "good_header (header_base i c)"
  unfolding good_header_def using header_base_nonempty header_base_clean by blast

lemma uniq_name_good:
  assumes "good_header base"
  shows "good_header (uniq_name base seen 1 base)"
proof -
  from uniq_name_spec [of base seen base 1]
  consider "uniq_name base seen 1 base = base"
    | k where "uniq_name base seen 1 base = base @ ''_'' @ str_nat k"
    by blast
  then show ?thesis
  proof cases
    case 1
    with assms show ?thesis by simp
  next
    case 2
    have "\<And>c. c \<in> set (base @ ''_'' @ str_nat k) \<Longrightarrow> c \<notin> set excel_bad_chars"
    proof -
      fix c assume "c \<in> set (base @ ''_'' @ str_nat k)"
      then have "c \<in> set base \<or> c = CHR ''_'' \<or> c \<in> set (str_nat k)"
        by auto
      then show "c \<notin> set excel_bad_chars"
        using assms underscore_ok str_nat_clean unfolding good_header_def by blast
    qed
    then show ?thesis
      unfolding 2 good_header_def by simp
  qed
qed

lemma safe_headers_prefix:
  "length (safe_headers i cs seen out) = length out + length cs
   \<and> take (length out) (safe_headers i cs seen out) = out"
proof (induction cs arbitrary: i seen out)
  case Nil
  show ?case by simp
next
  case (Cons c cs)
  let ?name = "uniq_name (header_base i c) seen 1 (header_base i c)"
  let ?R = "safe_headers (Suc i) cs (?name # seen) (out @ [?name])"
  have R: "safe_headers i (c # cs) seen out = ?R"
    by (simp add: Let_def)
  from Cons [of "Suc i" "?name # seen" "out @ [?name]"]
  have len: "length ?R = length (out @ [?name]) + length cs"
    and tk: "take (length (out @ [?name])) ?R = out @ [?name]"
    by simp_all
  have "take (length out) ?R = take (length out) (take (length (out @ [?name])) ?R)"
    by (simp add: min_def)
  also have "\<dots> = out"
    unfolding tk by simp
  finally show ?case
    unfolding R using len by simp
qed

lemma safe_headers_inv:
  assumes "set seen = set out" "distinct out" "\<forall>h \<in> set out. good_header h"
  shows "distinct (safe_headers i cs seen out)
       \<and> (\<forall>h \<in> set (safe_headers i cs seen out). good_header h)"
  using assms
proof (induction cs arbitrary: i seen out)
  case Nil
  then show ?case by simp
next
  case (Cons c cs)
  let ?name = "uniq_name (header_base i c) seen 1 (header_base i c)"
  have R: "safe_headers i (c # cs) seen out = safe_headers (Suc i) cs (?name # seen) (out @ [?name])"
    by (simp add: Let_def)
  have fresh: "?name \<notin> set out"
    using uniq_name_fresh [of "header_base i c" seen 1 "header_base i c"] Cons.prems(1) by simp
  have good: "good_header ?name"
    using header_base_good by (rule uniq_name_good)
  have a: "set (?name # seen) = set (out @ [?name])"
    using Cons.prems(1) by simp
  have b: "distinct (out @ [?name])"
    using Cons.prems(2) fresh by simp
  have c: "\<forall>h \<in> set (out @ [?name]). good_header h"
    using Cons.prems(3) good by simp
  from Cons.IH [OF a b c] show ?case
    unfolding R .
qed

lemma safe_headers_nth:
  assumes "set seen = set out" "j < length cs"
  shows "safe_headers i cs seen out ! (length out + j) =
           uniq_name (header_base (i + j) (cs ! j)) (take (length out + j) (safe_headers i cs seen out)) 1
             (header_base (i + j) (cs ! j))"
  using assms
proof (induction cs arbitrary: i seen out j)
  case Nil
  then show ?case by simp
next
  case (Cons c cs)
  let ?name = "uniq_name (header_base i c) seen 1 (header_base i c)"
  let ?R = "safe_headers (Suc i) cs (?name # seen) (out @ [?name])"
  have R: "safe_headers i (c # cs) seen out = ?R"
    by (simp add: Let_def)
  have a: "set (?name # seen) = set (out @ [?name])"
    using Cons.prems(1) by simp
  from safe_headers_prefix [of "Suc i" cs "?name # seen" "out @ [?name]"]
  have len: "length ?R = Suc (length out) + length cs"
    and tk: "take (Suc (length out)) ?R = out @ [?name]"
    by simp_all
  show ?case
  proof (cases j)
    case 0
    have "?R ! length out = take (Suc (length out)) ?R ! length out"
      by simp
    also have "\<dots> = ?name"
      unfolding tk by simp
    finally have n: "?R ! length out = ?name" .
    have "take (length out) ?R = take (length out) (take (Suc (length out)) ?R)"
      by (simp add: min_def)
    also have "\<dots> = out"
      unfolding tk by simp
    finally have "set (take (length out) ?R) = set seen"
      using Cons.prems(1) by simp
    then have "uniq_name (header_base i c) (take (length out) ?R) 1 (header_base i c) = ?name"
      by (rule uniq_name_cong_set)
    with n 0 show ?thesis
      unfolding R by simp
  next
    case (Suc j')
    with Cons.prems(2) have j': "j' < length cs"
      by simp
    from Cons.IH [OF a j', of "Suc i"] Suc show ?thesis
      unfolding R by simp
  qed
qed

lemma bad_chars_listed:
  "set excel_bad_chars = {CHR ''['', CHR '']'', CHR '':'', CHR ''*'', CHR ''?'', CHR 0x5C, CHR ''/''}"
  by (simp add: excel_bad_chars_def)

lemma header_base_blank: "strip c = [] \<Longrightarrow> header_base i c = ''Column'' @ str_nat i"
proof -
  assume "strip c = []"
  then have "header_base i c = sub_bad_chars (''Column'' @ str_nat i)"
    by (simp only: header_base_def Let_def simp_thms if_True)
  then show ?thesis
    unfolding column_name_clean .
qed

lemma header_base_named: "strip c \<noteq> [] \<Longrightarrow> header_base i c = sub_bad_chars (strip c)"
  by (simp only: header_base_def Let_def simp_thms if_False)

lemma safe_headers_position:
  assumes j: "j < length cs"
  shows "(header_base (Suc j) (cs ! j) \<notin> set (take j (safe_headers 1 cs [] []))
           \<longrightarrow> safe_headers 1 cs [] [] ! j = header_base (Suc j) (cs ! j))
       \<and> (header_base (Suc j) (cs ! j) \<in> set (take j (safe_headers 1 cs [] []))
           \<longrightarrow> (\<exists>k\<ge>2. safe_headers 1 cs [] [] ! j = header_base (Suc j) (cs ! j) @ ''_'' @ str_nat k
                  \<and> (\<forall>m. 2 \<le> m \<and> m < k \<longrightarrow>
                        header_base (Suc j) (cs ! j) @ ''_'' @ str_nat m
                          \<in> set (take j (safe_headers 1 cs [] [])))))"
proof -
  let ?b = "header_base (Suc j) (cs ! j)"
  let ?seen = "take j (safe_headers 1 cs [] [])"
  have "set ([] :: string list) = set []"
    by simp
  from safe_headers_nth [OF this j, of 1]
  have nth: "safe_headers 1 cs [] [] ! j = uniq_name ?b ?seen 1 ?b"
    by simp
  from uniq_name_spec [of ?b ?seen ?b 1]
  consider (keep) "?b \<notin> set ?seen" "uniq_name ?b ?seen 1 ?b = ?b"
    | (suffix) k where "?b \<in> set ?seen" "1 < k" "uniq_name ?b ?seen 1 ?b = ?b @ ''_'' @ str_nat k"
        "\<forall>m. 1 < m \<and> m < k \<longrightarrow> ?b @ ''_'' @ str_nat m \<in> set ?seen"
    by blast
  then show ?thesis
  proof cases
    case keep
    then show ?thesis
      unfolding nth by simp
  next
    case suffix
    from suffix(2) have "2 \<le> k"
      by simp
    moreover from suffix(4) have "\<forall>m. 2 \<le> m \<and> m < k \<longrightarrow> ?b @ ''_'' @ str_nat m \<in> set ?seen"
      by auto
    ultimately have "\<exists>k\<ge>2. uniq_name ?b ?seen 1 ?b = ?b @ ''_'' @ str_nat k
                  \<and> (\<forall>m. 2 \<le> m \<and> m < k \<longrightarrow> ?b @ ''_'' @ str_nat m \<in> set ?seen)"
      using suffix(3) by blast
    with suffix(1) show ?thesis
      unfolding nth by blast
  qed
qed

text \<open>
  C6. The headers \<^verbatim>\<open>_excel_safe_headers\<close> gives a frame are pairwise different, none
  is empty and none holds one of the characters \<^verbatim>\<open>[ ] : * ? \ /\<close>; the rows are kept.
  The header at the 1-based position \<open>i\<close> starts from the stripped label, or from
  \<open>Column<i>\<close> when that is empty, with the listed characters replaced by \<open>_\<close>; it
  is that name when no earlier final header equals it, and otherwise the name with
  \<open>_k\<close> appended for the least \<open>k \<ge> 2\<close> that no earlier final header uses.
\<close>

theorem excel_safe_headers_valid:
  "rows (excel_safe_headers df) = rows df
   \<and> length (columns (excel_safe_headers df)) = length (columns df)
   \<and> distinct (columns (excel_safe_headers df))
   \<and> (\<forall>h \<in> set (columns (excel_safe_headers df)).
         h \<noteq> [] \<and> (\<forall>c \<in> set h. c \<notin> {CHR ''['', CHR '']'', CHR '':'', CHR ''*'', CHR ''?'',
                                          CHR 0x5C, CHR ''/''}))
   \<and> (\<forall>j < length (columns df).
         (strip (columns df ! j) = []
            \<longrightarrow> header_base (Suc j) (columns df ! j) = ''Column'' @ str_nat (Suc j))
       \<and> (strip (columns df ! j) \<noteq> []
            \<longrightarrow> header_base (Suc j) (columns df ! j) = sub_bad_chars (strip (columns df ! j)))
       \<and> (header_base (Suc j) (columns df ! j) \<notin> set (take j (columns (excel_safe_headers df)))
            \<longrightarrow> columns (excel_safe_headers df) ! j = header_base (Suc j) (columns df ! j))
       \<and> (header_base (Suc j) (columns df ! j) \<in> set (take j (columns (excel_safe_headers df)))
            \<longrightarrow> (\<exists>k\<ge>2. columns (excel_safe_headers df) ! j
                          = header_base (Suc j) (columns df ! j) @ ''_'' @ str_nat k
                   \<and> (\<forall>m. 2 \<le> m \<and> m < k \<longrightarrow>
                         header_base (Suc j) (columns df ! j) @ ''_'' @ str_nat m
                           \<in> set (take j (columns (excel_safe_headers df)))))))"
proof -
  let ?hs = "safe_headers 1 (columns df) [] []"
  have cols: "columns (excel_safe_headers df) = ?hs"
    by (simp add: excel_safe_headers_def)
  have rws: "rows (excel_safe_headers df) = rows df"
    by (simp add: excel_safe_headers_def)
  have len: "length ?hs = length (columns df)"
    using safe_headers_prefix [of 1 "columns df" "[]" "[]"] by simp
  have inv: "distinct ?hs \<and> (\<forall>h \<in> set ?hs. good_header h)"
    by (rule safe_headers_inv) simp_all
  then have dist: "distinct ?hs"
    by simp
  from inv have good: "\<forall>h \<in> set ?hs.
         h \<noteq> [] \<and> (\<forall>c \<in> set h. c \<notin> {CHR ''['', CHR '']'', CHR '':'', CHR ''*'', CHR ''?'',
                                          CHR 0x5C, CHR ''/''})"
    unfolding good_header_def bad_chars_listed by simp
  have pos: "\<forall>j < length (columns df).
         (strip (columns df ! j) = []
            \<longrightarrow> header_base (Suc j) (columns df ! j) = ''Column'' @ str_nat (Suc j))
       \<and> (strip (columns df ! j) \<noteq> []
            \<longrightarrow> header_base (Suc j) (columns df ! j) = sub_bad_chars (strip (columns df ! j)))
       \<and> (header_base (Suc j) (columns df ! j) \<notin> set (take j ?hs)
            \<longrightarrow> ?hs ! j = header_base (Suc j) (columns df ! j))
       \<and> (header_base (Suc j) (columns df ! j) \<in> set (take j ?hs)
            \<longrightarrow> (\<exists>k\<ge>2. ?hs ! j = header_base (Suc j) (columns df ! j) @ ''_'' @ str_nat k
                   \<and> (\<forall>m. 2 \<le> m \<and> m < k \<longrightarrow>
                         header_base (Suc j) (columns df ! j) @ ''_'' @ str_nat m
                           \<in> set (take j ?hs))))"
    using header_base_blank header_base_named safe_headers_position by blast
  from rws len dist good pos show ?thesis
    unfolding cols by (intro conjI)
qed

theorem excel_safe_headers_valid_witness:
  "columns (excel_safe_headers \<lparr>columns = [''a'', ''  '', ''a'', ''x/y''], rows = []\<rparr>)
      = [''a'', ''Column2'', ''a_2'', ''x_y'']
   \<and> ''a_2'' \<in> set (columns (excel_safe_headers \<lparr>columns = [''a'', ''  '', ''a'', ''x/y''], rows = []\<rparr>))
   \<and> ''a_2'' \<noteq> [] \<and> CHR ''/'' \<notin> set ''a_2''
   \<and> (1 :: nat) < length (columns \<lparr>columns = [''a'', ''  '', ''a'', ''x/y''], rows = []\<rparr>)
   \<and> strip ''  '' = [] \<and> header_base 2 ''  '' = ''Column2''
   \<and> strip ''x/y'' \<noteq> [] \<and> header_base 4 ''x/y'' = ''x_y''
   \<and> header_base 3 ''a'' \<in> set (take 2 [''a'', ''Column2'', ''a_2'', ''x_y''])
   \<and> (\<exists>k\<ge>2. ''a_2'' = header_base 3 ''a'' @ ''_'' @ str_nat k)"
proof -
  let ?df = "\<lparr>columns = [''a'', ''  '', ''a'', ''x/y''], rows = []\<rparr>"
  note t = excel_safe_headers_valid [of ?df]
  have hs: "columns (excel_safe_headers ?df) = [''a'', ''Column2'', ''a_2'', ''x_y'']"
    by code_simp
  then have mem: "''a_2'' \<in> set (columns (excel_safe_headers ?df))"
    by simp
  from t mem have ne: "''a_2'' \<noteq> []"
    and nb: "\<forall>c \<in> set ''a_2''. c \<notin> {CHR ''['', CHR '']'', CHR '':'', CHR ''*'', CHR ''?'', CHR 0x5C, CHR ''/''}"
    by blast+
  from nb have slash: "CHR ''/'' \<notin> set ''a_2''"
    by blast
  have l1: "(1 :: nat) < length (columns ?df)" and l2: "(2 :: nat) < length (columns ?df)"
    and l3: "(3 :: nat) < length (columns ?df)"
    by simp_all
  have s1: "strip (columns ?df ! 1) = []"
    by code_simp
  have s3: "strip (columns ?df ! 3) \<noteq> []"
    by code_simp
  have two: "str_nat (Suc 1) = ''2''"
    by code_simp
  from t l1 s1 have "header_base (Suc 1) (columns ?df ! 1) = ''Column'' @ str_nat (Suc 1)"
    by blast
  then have b1: "header_base 2 ''  '' = ''Column2''"
    unfolding two by (simp add: numeral_2_eq_2)
  have sub: "sub_bad_chars (strip ''x/y'') = ''x_y''"
    by code_simp
  from t l3 s3 have "header_base (Suc 3) (columns ?df ! 3) = sub_bad_chars (strip (columns ?df ! 3))"
    by blast
  then have b3: "header_base 4 ''x/y'' = ''x_y''"
    using sub by (simp add: eval_nat_numeral)
  have b2: "header_base (Suc 2) (columns ?df ! 2) = ''a''"
    by code_simp
  then have in2: "header_base (Suc 2) (columns ?df ! 2) \<in> set (take 2 (columns (excel_safe_headers ?df)))"
    unfolding hs by simp
  from t l2 in2 obtain k where k: "2 \<le> k"
    "columns (excel_safe_headers ?df) ! 2 = header_base (Suc 2) (columns ?df ! 2) @ ''_'' @ str_nat k"
    by blast
  have h3: "header_base 3 ''a'' = ''a''"
    using b2 by (simp add: eval_nat_numeral)
  from k(2) have "''a_2'' = header_base 3 ''a'' @ ''_'' @ str_nat k"
    unfolding hs b2 h3 by simp
  with k(1) have ex: "\<exists>k\<ge>2. ''a_2'' = header_base 3 ''a'' @ ''_'' @ str_nat k"
    by blast
  have in3: "header_base 3 ''a'' \<in> set (take 2 [''a'', ''Column2'', ''a_2'', ''x_y''])"
    unfolding h3 by simp
  have st1: "strip ''  '' = []" and st3: "strip ''x/y'' \<noteq> []"
    using s1 s3 by simp_all
  from hs mem ne slash l1 st1 b1 st3 b3 in3 ex show ?thesis
    by (intro conjI)
qed

section \<open>Keys of the prepared frames\<close>

lemma rect_canon_columns:
  "list_all (\<lambda>r. length r = length (columns df)) (rows df) \<Longrightarrow>
   list_all (\<lambda>r. length r = length (columns (canon_columns df))) (rows (canon_columns df))"
  by (simp add: canon_columns_def)

lemma rect_ensure_item_number:
  "list_all (\<lambda>r. length r = length (columns df)) (rows df) \<Longrightarrow>
   list_all (\<lambda>r. length r = length (columns (ensure_item_number df))) (rows (ensure_item_number df))"
  by (simp add: ensure_item_number_def Let_def list_all_iff)

lemma rect_of_frame_ok:
  "frame_ok df \<Longrightarrow>
   list_all (\<lambda>r. length r = length (columns (ensure_item_number (canon_columns df))))
     (rows (ensure_item_number (canon_columns df)))"
  by (simp add: frame_ok_def rect_canon_columns rect_ensure_item_number)

lemma indexed_keys:
  assumes key: "key \<in> set (columns df)"
    and rect: "list_all (\<lambda>r. length r = length (columns df)) (rows df)"
  shows "fst ` set (irows (set_index key (select_columns (key # rest)
            (drop_duplicates_last key (clean_key_column fr key df)))))
         = (\<lambda>r. clean_key_value fr (r ! col_index (columns df) key)) ` set (rows df)"
proof -
  let ?i = "col_index (columns df) key"
  let ?g = "\<lambda>r. r[?i := PyStr (clean_key_value fr (r ! ?i))]"
  let ?R = "keep_last (\<lambda>r. r ! ?i) (map ?g (rows df))"
  have i: "?i < length (columns df)"
    using key by (rule col_index_less)
  have cell: "\<And>r. r \<in> set (rows df) \<Longrightarrow> ?g r ! ?i = PyStr (clean_key_value fr (r ! ?i))"
  proof -
    fix r assume "r \<in> set (rows df)"
    with rect have "length r = length (columns df)"
      by (simp add: list_all_iff)
    with i show "?g r ! ?i = PyStr (clean_key_value fr (r ! ?i))"
      by simp
  qed
  have "irows (set_index key (select_columns (key # rest)
            (drop_duplicates_last key (clean_key_column fr key df))))
        = map (\<lambda>r. (str_of_cell (r ! ?i), map (\<lambda>c. r ! col_index (columns df) c) rest)) ?R"
    by (simp add: set_index_def select_columns_def drop_duplicates_last_def
          clean_key_column_def Let_def col_index_Cons)
  then have "fst ` set (irows (set_index key (select_columns (key # rest)
            (drop_duplicates_last key (clean_key_column fr key df)))))
        = (\<lambda>r. str_of_cell (r ! ?i)) ` set ?R"
    by (simp add: image_image)
  also have "\<dots> = str_of_cell ` ((\<lambda>r. r ! ?i) ` set ?R)"
    by (simp add: image_image)
  also have "(\<lambda>r. r ! ?i) ` set ?R = (\<lambda>r. r ! ?i) ` set (map ?g (rows df))"
    by (rule keys_keep_last)
  also have "str_of_cell ` ((\<lambda>r. r ! ?i) ` set (map ?g (rows df)))
        = (\<lambda>r. str_of_cell (?g r ! ?i)) ` set (rows df)"
    by (simp add: image_image)
  also have "\<dots> = (\<lambda>r. clean_key_value fr (r ! ?i)) ` set (rows df)"
    by (rule image_cong) (simp_all add: cell)
  finally show ?thesis .
qed

lemma prepare_keys:
  assumes ok: "frame_ok df_old" "frame_ok df_new"
    and p: "prepare fr df_old df_new key = Inr (old, new, cc)"
  shows "fst ` set (irows old)
           = (\<lambda>r. clean_key_value fr
                 (r ! col_index (columns (ensure_item_number (canon_columns df_old))) key))
               ` set (rows (ensure_item_number (canon_columns df_old)))"
    and "fst ` set (irows new)
           = (\<lambda>r. clean_key_value fr
                 (r ! col_index (columns (ensure_item_number (canon_columns df_new))) key))
               ` set (rows (ensure_item_number (canon_columns df_new)))"
proof -
  let ?o = "ensure_item_number (canon_columns df_old)"
  let ?n = "ensure_item_number (canon_columns df_new)"
  let ?c0 = "sort (remdups (filter (\<lambda>c. c \<in> set (columns ?o)) (columns ?n)))"
  from p have ko: "key \<in> set (columns ?o)" and kn: "key \<in> set (columns ?n)"
    by (auto simp: prepare_def Let_def split: if_splits)
  then have kc: "key \<in> set ?c0"
    by simp
  have co: "columns (drop_duplicates_last key (clean_key_column fr key ?o)) = columns ?o"
    and cn: "columns (drop_duplicates_last key (clean_key_column fr key ?n)) = columns ?n"
    by (simp_all add: drop_duplicates_last_def clean_key_column_def Let_def)
  have "prepare fr df_old df_new key =
          Inr (set_index key (select_columns (key # filter (\<lambda>c. c \<noteq> key) ?c0)
                 (drop_duplicates_last key (clean_key_column fr key ?o))),
               set_index key (select_columns (key # filter (\<lambda>c. c \<noteq> key) ?c0)
                 (drop_duplicates_last key (clean_key_column fr key ?n))),
               key # filter (\<lambda>c. c \<noteq> key) ?c0)"
    using ko kn kc unfolding prepare_def Let_def co cn by simp
  with p [symmetric]
  have "Inr (old, new, cc) =
          (Inr (set_index key (select_columns (key # filter (\<lambda>c. c \<noteq> key) ?c0)
                 (drop_duplicates_last key (clean_key_column fr key ?o))),
               set_index key (select_columns (key # filter (\<lambda>c. c \<noteq> key) ?c0)
                 (drop_duplicates_last key (clean_key_column fr key ?n))),
               key # filter (\<lambda>c. c \<noteq> key) ?c0) :: error + itable \<times> itable \<times> string list)"
    by (rule trans)
  then
  have old: "old = set_index key (select_columns (key # filter (\<lambda>c. c \<noteq> key) ?c0)
            (drop_duplicates_last key (clean_key_column fr key ?o)))"
    and new: "new = set_index key (select_columns (key # filter (\<lambda>c. c \<noteq> key) ?c0)
            (drop_duplicates_last key (clean_key_column fr key ?n)))"
    by simp_all
  show "fst ` set (irows old)
           = (\<lambda>r. clean_key_value fr (r ! col_index (columns ?o) key)) ` set (rows ?o)"
    unfolding old using ko rect_of_frame_ok [OF ok(1)] by (rule indexed_keys)
  show "fst ` set (irows new)
           = (\<lambda>r. clean_key_value fr (r ! col_index (columns ?n) key)) ` set (rows ?n)"
    unfolding new using kn rect_of_frame_ok [OF ok(2)] by (rule indexed_keys)
qed

lemma no_false_added_row:
  assumes ok: "frame_ok df_old" "frame_ok df_new"
    and p: "prepare fr df_old df_new key = Inr (old, new, cc)"
    and ro: "ro \<in> set (rows (ensure_item_number (canon_columns df_old)))"
    and rn: "rn \<in> set (rows (ensure_item_number (canon_columns df_new)))"
    and eq: "clean_key_value fr (ro ! col_index (columns (ensure_item_number (canon_columns df_old))) key)
           = clean_key_value fr (rn ! col_index (columns (ensure_item_number (canon_columns df_new))) key)"
  shows "clean_key_value fr (rn ! col_index (columns (ensure_item_number (canon_columns df_new))) key)
           \<in> fst ` set (irows old)
       \<and> clean_key_value fr (rn ! col_index (columns (ensure_item_number (canon_columns df_new))) key)
           \<in> fst ` set (irows new)
       \<and> (\<forall>r \<in> set (rows (new_rows_with_delay parse old new)).
            hd r \<noteq> PyStr (clean_key_value fr
                     (rn ! col_index (columns (ensure_item_number (canon_columns df_new))) key)))"
proof -
  let ?k = "clean_key_value fr (rn ! col_index (columns (ensure_item_number (canon_columns df_new))) key)"
  have inold: "?k \<in> fst ` set (irows old)"
    unfolding prepare_keys(1) [OF ok p] using ro eq [symmetric] by (rule image_eqI [rotated])
  have innew: "?k \<in> fst ` set (irows new)"
    unfolding prepare_keys(2) [OF ok p] using rn by (rule imageI)
  have "\<forall>r \<in> set (rows (new_rows_with_delay parse old new)). hd r \<noteq> PyStr ?k"
  proof
    fix r assume "r \<in> set (rows (new_rows_with_delay parse old new))"
    from added_row_shape [OF this] obtain k cs
      where "r = PyStr k # cs" "k \<notin> fst ` set (irows old)"
      by blast
    with inold show "hd r \<noteq> PyStr ?k"
      by auto
  qed
  with inold innew show ?thesis
    by blast
qed

text \<open>
  C3. \<^verbatim>\<open>_clean_key_value\<close> returns the empty string for \<^verbatim>\<open>None\<close> and for the float
  NaN; for a float whose value is an integer \<open>n\<close> it returns the decimal string of \<open>n\<close>,
  which has no decimal point; for every other value it returns the stripped string
  form of the value. So the float 1001.0 and the string "1001" both give "1001".
  Consequently, for all frames that \<^verbatim>\<open>_prepare\<close> accepts: when a key cell of the old
  frame and a key cell of the new frame normalize to the same string, that string is a
  key of both prepared frames and no row of the added-delay output has it as its key
  (the leading cell); in particular when one of the two cells is the float 1001.0 and
  the other the string "1001", whichever frame holds which.
\<close>

theorem clean_key_value_rules:
  "clean_key_value fr PyNone = []
   \<and> clean_key_value fr (PyFloat NaN) = []
   \<and> (\<forall>f. is_integer f \<longrightarrow>
         (\<exists>n. f = Finite (of_int n) \<and> clean_key_value fr (PyFloat f) = str_int n
              \<and> CHR ''.'' \<notin> set (str_int n)))
   \<and> (\<forall>v. v \<noteq> PyNone \<longrightarrow> \<not> (is_float v \<and> isnan (float_of v))
          \<longrightarrow> \<not> (is_float v \<and> is_integer (float_of v))
          \<longrightarrow> clean_key_value fr v = strip (py_str fr v))
   \<and> clean_key_value fr (PyFloat (Finite 1001)) = ''1001''
   \<and> clean_key_value fr (PyStr ''1001'') = ''1001''
   \<and> (\<exists>old new cc.
         prepare fr \<lparr>columns = [''Item number''], rows = [[PyFloat (Finite 1001)]]\<rparr>
           \<lparr>columns = [''Item number''], rows = [[PyStr ''1001'']]\<rparr> ''Item number''
           = Inr (old, new, cc)
         \<and> map fst (irows old) = [''1001''] \<and> map fst (irows new) = [''1001'']
         \<and> rows (new_rows_with_delay parse old new) = [])
   \<and> (\<forall>df_old df_new key old new cc ro rn.
         frame_ok df_old \<longrightarrow> frame_ok df_new
         \<longrightarrow> prepare fr df_old df_new key = Inr (old, new, cc)
         \<longrightarrow> ro \<in> set (rows (ensure_item_number (canon_columns df_old))) \<longrightarrow> rn \<in> set (rows (ensure_item_number (canon_columns df_new)))
         \<longrightarrow> clean_key_value fr (ro ! col_index (columns (ensure_item_number (canon_columns df_old))) key)
               = clean_key_value fr (rn ! col_index (columns (ensure_item_number (canon_columns df_new))) key)
         \<longrightarrow> clean_key_value fr (rn ! col_index (columns (ensure_item_number (canon_columns df_new))) key) \<in> fst ` set (irows old)
             \<and> clean_key_value fr (rn ! col_index (columns (ensure_item_number (canon_columns df_new))) key) \<in> fst ` set (irows new)
             \<and> (\<forall>r \<in> set (rows (new_rows_with_delay parse old new)).
                  hd r \<noteq> PyStr (clean_key_value fr (rn ! col_index (columns (ensure_item_number (canon_columns df_new))) key))))
   \<and> (\<forall>df_old df_new key old new cc ro rn.
         frame_ok df_old \<longrightarrow> frame_ok df_new
         \<longrightarrow> prepare fr df_old df_new key = Inr (old, new, cc)
         \<longrightarrow> ro \<in> set (rows (ensure_item_number (canon_columns df_old))) \<longrightarrow> rn \<in> set (rows (ensure_item_number (canon_columns df_new)))
         \<longrightarrow> (ro ! col_index (columns (ensure_item_number (canon_columns df_old))) key = PyFloat (Finite 1001)
                \<and> rn ! col_index (columns (ensure_item_number (canon_columns df_new))) key = PyStr ''1001'')
             \<or> (ro ! col_index (columns (ensure_item_number (canon_columns df_old))) key = PyStr ''1001''
                \<and> rn ! col_index (columns (ensure_item_number (canon_columns df_new))) key = PyFloat (Finite 1001))
         \<longrightarrow> ''1001'' \<in> fst ` set (irows old) \<and> ''1001'' \<in> fst ` set (irows new)
             \<and> (\<forall>r \<in> set (rows (new_rows_with_delay parse old new)). hd r \<noteq> PyStr ''1001''))"
proof -
  have none: "clean_key_value fr PyNone = []"
    by (simp add: clean_key_value_def)
  have nan: "clean_key_value fr (PyFloat NaN) = []"
    by (simp add: clean_key_value_def isnan_def)
  have whole: "\<forall>f. is_integer f \<longrightarrow>
         (\<exists>n. f = Finite (of_int n) \<and> clean_key_value fr (PyFloat f) = str_int n
              \<and> CHR ''.'' \<notin> set (str_int n))"
    using is_integer_value clean_integral_float str_int_no_point by blast
  have other: "\<forall>v. v \<noteq> PyNone \<longrightarrow> \<not> (is_float v \<and> isnan (float_of v))
          \<longrightarrow> \<not> (is_float v \<and> is_integer (float_of v))
          \<longrightarrow> clean_key_value fr v = strip (py_str fr v)"
    by (simp add: clean_key_value_def)
  have f1001: "clean_key_value fr (PyFloat (Finite 1001)) = ''1001''"
    by code_simp
  have s1001: "clean_key_value fr (PyStr ''1001'') = ''1001''"
    by code_simp
  have scen: "\<exists>old new cc.
         prepare fr \<lparr>columns = [''Item number''], rows = [[PyFloat (Finite 1001)]]\<rparr>
           \<lparr>columns = [''Item number''], rows = [[PyStr ''1001'']]\<rparr> ''Item number''
           = Inr (old, new, cc)
         \<and> map fst (irows old) = [''1001''] \<and> map fst (irows new) = [''1001'']
         \<and> rows (new_rows_with_delay parse old new) = []"
    using scenario_c_prepare [of fr] scenario_c_added [of parse] by simp
  have gen: "\<forall>df_old df_new key old new cc ro rn.
         frame_ok df_old \<longrightarrow> frame_ok df_new
         \<longrightarrow> prepare fr df_old df_new key = Inr (old, new, cc)
         \<longrightarrow> ro \<in> set (rows (ensure_item_number (canon_columns df_old))) \<longrightarrow> rn \<in> set (rows (ensure_item_number (canon_columns df_new)))
         \<longrightarrow> clean_key_value fr (ro ! col_index (columns (ensure_item_number (canon_columns df_old))) key)
               = clean_key_value fr (rn ! col_index (columns (ensure_item_number (canon_columns df_new))) key)
         \<longrightarrow> clean_key_value fr (rn ! col_index (columns (ensure_item_number (canon_columns df_new))) key) \<in> fst ` set (irows old)
             \<and> clean_key_value fr (rn ! col_index (columns (ensure_item_number (canon_columns df_new))) key) \<in> fst ` set (irows new)
             \<and> (\<forall>r \<in> set (rows (new_rows_with_delay parse old new)).
                  hd r \<noteq> PyStr (clean_key_value fr (rn ! col_index (columns (ensure_item_number (canon_columns df_new))) key)))"
    by (intro allI impI) (rule no_false_added_row)
  have both: "\<forall>df_old df_new key old new cc ro rn.
         frame_ok df_old \<longrightarrow> frame_ok df_new
         \<longrightarrow> prepare fr df_old df_new key = Inr (old, new, cc)
         \<longrightarrow> ro \<in> set (rows (ensure_item_number (canon_columns df_old))) \<longrightarrow> rn \<in> set (rows (ensure_item_number (canon_columns df_new)))
         \<longrightarrow> (ro ! col_index (columns (ensure_item_number (canon_columns df_old))) key = PyFloat (Finite 1001)
                \<and> rn ! col_index (columns (ensure_item_number (canon_columns df_new))) key = PyStr ''1001'')
             \<or> (ro ! col_index (columns (ensure_item_number (canon_columns df_old))) key = PyStr ''1001''
                \<and> rn ! col_index (columns (ensure_item_number (canon_columns df_new))) key = PyFloat (Finite 1001))
         \<longrightarrow> ''1001'' \<in> fst ` set (irows old) \<and> ''1001'' \<in> fst ` set (irows new)
             \<and> (\<forall>r \<in> set (rows (new_rows_with_delay parse old new)). hd r \<noteq> PyStr ''1001'')"
  proof (intro allI impI)
    fix df_old df_new key old new cc ro rn
    assume ok: "frame_ok df_old" "frame_ok df_new"
      and p: "prepare fr df_old df_new key = Inr (old, new, cc)"
      and ro: "ro \<in> set (rows (ensure_item_number (canon_columns df_old)))" and rn: "rn \<in> set (rows (ensure_item_number (canon_columns df_new)))"
      and cells: "(ro ! col_index (columns (ensure_item_number (canon_columns df_old))) key = PyFloat (Finite 1001)
                \<and> rn ! col_index (columns (ensure_item_number (canon_columns df_new))) key = PyStr ''1001'')
             \<or> (ro ! col_index (columns (ensure_item_number (canon_columns df_old))) key = PyStr ''1001''
                \<and> rn ! col_index (columns (ensure_item_number (canon_columns df_new))) key = PyFloat (Finite 1001))"
    from cells f1001 s1001
    have eq: "clean_key_value fr (ro ! col_index (columns (ensure_item_number (canon_columns df_old))) key)
               = clean_key_value fr (rn ! col_index (columns (ensure_item_number (canon_columns df_new))) key)"
      and k: "clean_key_value fr (rn ! col_index (columns (ensure_item_number (canon_columns df_new))) key) = ''1001''"
      by auto
    from no_false_added_row [OF ok p ro rn eq, of parse]
    show "''1001'' \<in> fst ` set (irows old) \<and> ''1001'' \<in> fst ` set (irows new)
             \<and> (\<forall>r \<in> set (rows (new_rows_with_delay parse old new)). hd r \<noteq> PyStr ''1001'')"
      unfolding k .
  qed
  from none nan whole other f1001 s1001 scen gen both show ?thesis
    by (intro conjI)
qed

theorem clean_key_value_rules_witness:
  "is_integer (Finite 7)
   \<and> clean_key_value (\<lambda>f. ''2.5'') (PyFloat (Finite 7)) = ''7''
   \<and> PyStr '' ab '' \<noteq> PyNone
   \<and> clean_key_value (\<lambda>f. ''2.5'') (PyStr '' ab '') = ''ab''
   \<and> \<not> is_integer (Finite (5 / 2))
   \<and> clean_key_value (\<lambda>f. ''2.5'') (PyFloat (Finite (5 / 2))) = ''2.5''
   \<and> frame_ok \<lparr>columns = [''Item number'', ''Delay''], rows = [[PyStr ''1001'', PyInt 1]]\<rparr>
   \<and> frame_ok \<lparr>columns = [''item_no'', ''delay (days)''],
                 rows = [[PyFloat (Finite 1001), PyInt 4], [PyInt 7, PyInt 3]]\<rparr>
   \<and> prepare (\<lambda>f. ''2.5'')
        \<lparr>columns = [''Item number'', ''Delay''], rows = [[PyStr ''1001'', PyInt 1]]\<rparr>
        \<lparr>columns = [''item_no'', ''delay (days)''],
          rows = [[PyFloat (Finite 1001), PyInt 4], [PyInt 7, PyInt 3]]\<rparr> ''Item number''
      = Inr (\<lparr>index_name = ''Item number'', icolumns = [''Delay (days)''],
              irows = [(''1001'', [PyInt 1])]\<rparr>,
             \<lparr>index_name = ''Item number'', icolumns = [''Delay (days)''],
              irows = [(''1001'', [PyInt 4]), (''7'', [PyInt 3])]\<rparr>,
             [''Item number'', ''Delay (days)''])
   \<and> rows (new_rows_with_delay (\<lambda>s. NaN)
        \<lparr>index_name = ''Item number'', icolumns = [''Delay (days)''],
          irows = [(''1001'', [PyInt 1])]\<rparr>
        \<lparr>index_name = ''Item number'', icolumns = [''Delay (days)''],
          irows = [(''1001'', [PyInt 4]), (''7'', [PyInt 3])]\<rparr>)
      = [[PyStr ''7'', PyFloat (Finite 3)]]
   \<and> ''1001'' \<in> fst ` set [(''1001'', [PyInt 4 :: cell]), (''7'', [PyInt 3])]
   \<and> hd [PyStr ''7'', PyFloat (Finite 3)] \<noteq> PyStr ''1001''"
proof -
  let ?fr = "\<lambda>f :: pyfloat. ''2.5''"
  let ?p = "\<lambda>s :: string. NaN"
  let ?dfo = "\<lparr>columns = [''Item number'', ''Delay''], rows = [[PyStr ''1001'', PyInt 1]]\<rparr>"
  let ?dfn = "\<lparr>columns = [''item_no'', ''delay (days)''],
                 rows = [[PyFloat (Finite 1001), PyInt 4], [PyInt 7, PyInt 3]]\<rparr>"
  let ?old = "\<lparr>index_name = ''Item number'', icolumns = [''Delay (days)''],
              irows = [(''1001'', [PyInt 1])]\<rparr>"
  let ?new = "\<lparr>index_name = ''Item number'', icolumns = [''Delay (days)''],
              irows = [(''1001'', [PyInt 4]), (''7'', [PyInt 3])]\<rparr>"
  let ?r = "[PyStr ''7'', PyFloat (Finite 3)]"
  note r = clean_key_value_rules [of ?fr ?p]
  have i7: "is_integer (Finite 7)"
    by simp
  note whole = r [THEN conjunct2, THEN conjunct2, THEN conjunct1]
  note other = r [THEN conjunct2, THEN conjunct2, THEN conjunct2, THEN conjunct1]
  from whole i7 obtain n where n: "Finite 7 = Finite (of_int n)"
    and c7: "clean_key_value ?fr (PyFloat (Finite 7)) = str_int n"
    by blast
  from n have "of_int n = (7 :: rat)"
    by simp
  then have "n = 7"
    by linarith
  moreover have "str_int 7 = ''7''"
    by code_simp
  ultimately have w7: "clean_key_value ?fr (PyFloat (Finite 7)) = ''7''"
    using c7 by simp
  have "clean_key_value ?fr (PyStr '' ab '') = strip (py_str ?fr (PyStr '' ab ''))"
    using other by simp
  moreover have "strip '' ab '' = ''ab''"
    by code_simp
  ultimately have wab: "clean_key_value ?fr (PyStr '' ab '') = ''ab''"
    by simp
  have "\<lfloor>(5 :: rat) / 2\<rfloor> = 2"
    by (rule floor_unique) simp_all
  then have nfrac: "\<not> is_integer (Finite (5 / 2))"
    by simp
  have "clean_key_value ?fr (PyFloat (Finite (5 / 2)))
          = strip (py_str ?fr (PyFloat (Finite (5 / 2))))"
    using other nfrac by (simp add: isnan_def)
  moreover have "strip ''2.5'' = ''2.5''"
    by code_simp
  ultimately have wfrac: "clean_key_value ?fr (PyFloat (Finite (5 / 2))) = ''2.5''"
    by simp
  have oko: "frame_ok ?dfo" and okn: "frame_ok ?dfn"
    by code_simp+
  have p: "prepare ?fr ?dfo ?dfn ''Item number'' = Inr (?old, ?new, [''Item number'', ''Delay (days)''])"
    by code_simp
  have eo: "ensure_item_number (canon_columns ?dfo)
      = \<lparr>columns = [''Item number'', ''Delay (days)''], rows = [[PyStr ''1001'', PyInt 1]]\<rparr>"
    by code_simp
  have en: "ensure_item_number (canon_columns ?dfn)
      = \<lparr>columns = [''Item number'', ''Delay (days)''],
          rows = [[PyFloat (Finite 1001), PyInt 4], [PyInt 7, PyInt 3]]\<rparr>"
    by code_simp
  have ro: "[PyStr ''1001'', PyInt 1] \<in> set (rows (ensure_item_number (canon_columns ?dfo)))"
    unfolding eo by simp
  have rn: "[PyFloat (Finite 1001), PyInt 4] \<in> set (rows (ensure_item_number (canon_columns ?dfn)))"
    unfolding en by simp
  have cells: "([PyStr ''1001'', PyInt 1] ! col_index (columns (ensure_item_number (canon_columns ?dfo))) ''Item number''
                  = PyFloat (Finite 1001)
               \<and> [PyFloat (Finite 1001), PyInt 4] ! col_index (columns (ensure_item_number (canon_columns ?dfn))) ''Item number''
                  = PyStr ''1001'')
             \<or> ([PyStr ''1001'', PyInt 1] ! col_index (columns (ensure_item_number (canon_columns ?dfo))) ''Item number''
                  = PyStr ''1001''
               \<and> [PyFloat (Finite 1001), PyInt 4] ! col_index (columns (ensure_item_number (canon_columns ?dfn))) ''Item number''
                  = PyFloat (Finite 1001))"
    unfolding eo en by (simp add: col_index_def)
  note both = r [THEN conjunct2, THEN conjunct2, THEN conjunct2, THEN conjunct2,
      THEN conjunct2, THEN conjunct2, THEN conjunct2, THEN conjunct2]
  from both [rule_format, OF oko okn p ro rn cells]
  have inn: "''1001'' \<in> fst ` set (irows ?new)"
    and no: "\<forall>r \<in> set (rows (new_rows_with_delay ?p ?old ?new)). hd r \<noteq> PyStr ''1001''"
    by simp_all
  have out: "rows (new_rows_with_delay ?p ?old ?new) = [?r]"
    by code_simp
  with no have hdr: "hd ?r \<noteq> PyStr ''1001''"
    by simp
  from inn have inn': "''1001'' \<in> fst ` set [(''1001'', [PyInt 4 :: cell]), (''7'', [PyInt 3])]"
    by simp
  from i7 w7 wab nfrac wfrac oko okn p out inn' hdr show ?thesis
    by (intro conjI) simp_all
qed

section \<open>Table regions of the workbook\<close>

lemma excel_safe_headers_rows: "rows (excel_safe_headers df) = rows df"
  by (simp add: excel_safe_headers_def)

lemma excel_safe_headers_length: "length (columns (excel_safe_headers df)) = length (columns df)"
  using safe_headers_prefix [of 1 "columns df" "[]" "[]"] by (simp add: excel_safe_headers_def)

lemma excel_safe_headers_empty: "columns (excel_safe_headers df) = [] \<longleftrightarrow> columns df = []"
  using excel_safe_headers_length [of df] by (metis length_0_conv)

lemma sheet_cells:
  "cells (add_table u (to_excel (excel_safe_headers df) t)) =
     (if columns df = [] then [] else map PyStr (columns (excel_safe_headers df)) # rows df)"
  by (simp add: add_table_def to_excel_def excel_safe_headers_empty excel_safe_headers_rows)

lemma sheet_title: "title (add_table u (to_excel (excel_safe_headers df) t)) = t"
  by (simp add: add_table_def to_excel_def)

lemma sheet_tables:
  "tables (add_table u (to_excel (excel_safe_headers df) t)) =
     (if rows df \<noteq> [] \<and> columns df \<noteq> []
      then [\<lparr>displayName = safe_table_name t u, last_col = length (columns df),
             last_row = Suc (length (rows df))\<rparr>]
      else [])"
proof (cases "columns df = []")
  case True
  then show ?thesis
    by (simp add: add_table_def to_excel_def max_row_def max_column_def excel_safe_headers_empty)
next
  case False
  then have ne: "columns (excel_safe_headers df) \<noteq> []"
    by (simp add: excel_safe_headers_empty)
  show ?thesis
  proof (cases "rows df = []")
    case True
    with False ne show ?thesis
      by (simp add: add_table_def to_excel_def max_row_def max_column_def excel_safe_headers_rows)
  next
    case nonempty: False
    then have "2 \<le> Suc (length (rows df))"
      by (cases "rows df") simp_all
    moreover from False have "Suc 0 \<le> length (columns df)"
      by (cases "columns df") simp_all
    ultimately show ?thesis
      using False ne nonempty
      by (simp add: add_table_def to_excel_def max_row_def max_column_def
            excel_safe_headers_rows excel_safe_headers_length)
  qed
qed

lemma added_columns_nonempty: "columns (new_rows_with_delay parse old new) \<noteq> []"
  by (simp add: new_rows_with_delay_def Let_def reset_index_def)

text \<open>
  C7. In the workbook, each of the three sheets has a table object exactly when its
  frame has at least one row and at least one column, which is exactly when the sheet
  holds at least two rows of cells and at least one column. A sheet whose frame has
  columns holds the header row followed by the rows of the frame, so a frame without
  rows gives a sheet with its header row and no table; a frame with rows gives one
  table whose range ends at the last column and the last row of the sheet. The first
  two frames always have a column (the key), and so has every result of the delta
  filter.
\<close>

theorem workbook_table_regions:
  "map title (to_excel_bytes u1 u2 u3 old new added)
     = [''Oude_invoer'', ''Nieuwe_invoer'', ''Nieuwe_rijen_Delay_gt_0'']
   \<and> (\<forall>i < 3.
        (tables (to_excel_bytes u1 u2 u3 old new added ! i) \<noteq> []
           \<longleftrightarrow> rows ([reset_index old, reset_index new, added] ! i) \<noteq> []
               \<and> columns ([reset_index old, reset_index new, added] ! i) \<noteq> [])
      \<and> (tables (to_excel_bytes u1 u2 u3 old new added ! i) \<noteq> []
           \<longleftrightarrow> 2 \<le> length (cells (to_excel_bytes u1 u2 u3 old new added ! i))
               \<and> 1 \<le> length (hd (cells (to_excel_bytes u1 u2 u3 old new added ! i))))
      \<and> (columns ([reset_index old, reset_index new, added] ! i) \<noteq> []
           \<longrightarrow> cells (to_excel_bytes u1 u2 u3 old new added ! i)
                 = map PyStr (columns (excel_safe_headers ([reset_index old, reset_index new, added] ! i)))
                   # rows ([reset_index old, reset_index new, added] ! i))
      \<and> (rows ([reset_index old, reset_index new, added] ! i) \<noteq> []
           \<and> columns ([reset_index old, reset_index new, added] ! i) \<noteq> []
           \<longrightarrow> tables (to_excel_bytes u1 u2 u3 old new added ! i)
                 = [\<lparr>displayName = safe_table_name
                        ([''Oude_invoer'', ''Nieuwe_invoer'', ''Nieuwe_rijen_Delay_gt_0''] ! i)
                        ([u1, u2, u3] ! i),
                      last_col = length (hd (cells (to_excel_bytes u1 u2 u3 old new added ! i))),
                      last_row = length (cells (to_excel_bytes u1 u2 u3 old new added ! i))\<rparr>]))
   \<and> columns (reset_index old) \<noteq> [] \<and> columns (reset_index new) \<noteq> []
   \<and> (rows (reset_index old) = [] \<longleftrightarrow> irows old = [])
   \<and> (rows (reset_index new) = [] \<longleftrightarrow> irows new = [])
   \<and> columns (new_rows_with_delay parse old new) \<noteq> []"
proof -
  let ?wb = "to_excel_bytes u1 u2 u3 old new added"
  let ?dfs = "[reset_index old, reset_index new, added]"
  let ?ts = "[''Oude_invoer'', ''Nieuwe_invoer'', ''Nieuwe_rijen_Delay_gt_0'']"
  let ?us = "[u1, u2, u3]"
  have wb: "?wb = map (\<lambda>i. add_table (?us ! i) (to_excel (excel_safe_headers (?dfs ! i)) (?ts ! i))) [0, 1, 2]"
    by (simp add: to_excel_bytes_def Let_def)
  have titles: "map title ?wb = ?ts"
    unfolding wb by (simp add: sheet_title)
  have sheet: "\<And>i. i < 3 \<Longrightarrow>
      ?wb ! i = add_table (?us ! i) (to_excel (excel_safe_headers (?dfs ! i)) (?ts ! i))"
  proof -
    fix i :: nat assume "i < 3"
    then have "i = 0 \<or> i = 1 \<or> i = 2"
      by arith
    then show "?wb ! i = add_table (?us ! i) (to_excel (excel_safe_headers (?dfs ! i)) (?ts ! i))"
      unfolding wb by auto
  qed
  have per: "\<forall>i < 3.
        (tables (?wb ! i) \<noteq> [] \<longleftrightarrow> rows (?dfs ! i) \<noteq> [] \<and> columns (?dfs ! i) \<noteq> [])
      \<and> (tables (?wb ! i) \<noteq> [] \<longleftrightarrow> 2 \<le> length (cells (?wb ! i)) \<and> 1 \<le> length (hd (cells (?wb ! i))))
      \<and> (columns (?dfs ! i) \<noteq> []
           \<longrightarrow> cells (?wb ! i) = map PyStr (columns (excel_safe_headers (?dfs ! i))) # rows (?dfs ! i))
      \<and> (rows (?dfs ! i) \<noteq> [] \<and> columns (?dfs ! i) \<noteq> []
           \<longrightarrow> tables (?wb ! i)
                 = [\<lparr>displayName = safe_table_name (?ts ! i) (?us ! i),
                      last_col = length (hd (cells (?wb ! i))),
                      last_row = length (cells (?wb ! i))\<rparr>])"
  proof (intro allI impI)
    fix i :: nat assume i: "i < 3"
    let ?df = "?dfs ! i"
    let ?ws = "add_table (?us ! i) (to_excel (excel_safe_headers ?df) (?ts ! i))"
    have a: "tables ?ws \<noteq> [] \<longleftrightarrow> rows ?df \<noteq> [] \<and> columns ?df \<noteq> []"
      unfolding sheet_tables by simp
    have c: "columns ?df \<noteq> [] \<longrightarrow> cells ?ws = map PyStr (columns (excel_safe_headers ?df)) # rows ?df"
      unfolding sheet_cells by simp
    have b: "tables ?ws \<noteq> [] \<longleftrightarrow> 2 \<le> length (cells ?ws) \<and> 1 \<le> length (hd (cells ?ws))"
    proof (cases "columns ?df = []")
      case True
      then show ?thesis
        unfolding sheet_tables sheet_cells by simp
    next
      case False
      then have "1 \<le> length (columns ?df)"
        by (cases "columns ?df") simp_all
      moreover have "2 \<le> Suc (length (rows ?df)) \<longleftrightarrow> rows ?df \<noteq> []"
        by (cases "rows ?df") simp_all
      ultimately show ?thesis
        unfolding sheet_tables sheet_cells using False
        by (simp add: excel_safe_headers_length)
    qed
    have d: "rows ?df \<noteq> [] \<and> columns ?df \<noteq> []
           \<longrightarrow> tables ?ws = [\<lparr>displayName = safe_table_name (?ts ! i) (?us ! i),
                      last_col = length (hd (cells ?ws)), last_row = length (cells ?ws)\<rparr>]"
      unfolding sheet_tables sheet_cells by (simp add: excel_safe_headers_length)
    from a b c d show "(tables (?wb ! i) \<noteq> [] \<longleftrightarrow> rows (?dfs ! i) \<noteq> [] \<and> columns (?dfs ! i) \<noteq> [])
      \<and> (tables (?wb ! i) \<noteq> [] \<longleftrightarrow> 2 \<le> length (cells (?wb ! i)) \<and> 1 \<le> length (hd (cells (?wb ! i))))
      \<and> (columns (?dfs ! i) \<noteq> []
           \<longrightarrow> cells (?wb ! i) = map PyStr (columns (excel_safe_headers (?dfs ! i))) # rows (?dfs ! i))
      \<and> (rows (?dfs ! i) \<noteq> [] \<and> columns (?dfs ! i) \<noteq> []
           \<longrightarrow> tables (?wb ! i)
                 = [\<lparr>displayName = safe_table_name (?ts ! i) (?us ! i),
                      last_col = length (hd (cells (?wb ! i))),
                      last_row = length (cells (?wb ! i))\<rparr>])"
      unfolding sheet [OF i] by (intro conjI)
  qed
  have e: "columns (reset_index old) \<noteq> []" "columns (reset_index new) \<noteq> []"
    "rows (reset_index old) = [] \<longleftrightarrow> irows old = []"
    "rows (reset_index new) = [] \<longleftrightarrow> irows new = []"
    by (simp_all add: reset_index_def)
  from titles per e added_columns_nonempty [of parse old new] show ?thesis
    by (intro conjI)
qed

theorem workbook_table_regions_witness:
  "(0 :: nat) < 3 \<and> (2 :: nat) < 3
   \<and> rows (reset_index \<lparr>index_name = ''Item number'', icolumns = [''Delay (days)''],
                          irows = [(''1'', [PyInt 3])]\<rparr>) \<noteq> []
   \<and> columns (reset_index \<lparr>index_name = ''Item number'', icolumns = [''Delay (days)''],
                          irows = [(''1'', [PyInt 3])]\<rparr>) \<noteq> []
   \<and> tables (to_excel_bytes ''12345678-a'' ''22345678-b'' ''32345678-c''
        \<lparr>index_name = ''Item number'', icolumns = [''Delay (days)''], irows = [(''1'', [PyInt 3])]\<rparr>
        \<lparr>index_name = ''Item number'', icolumns = [''Delay (days)''], irows = [(''1'', [PyInt 3])]\<rparr>
        \<lparr>columns = [''Item number'', ''Delay (days)''], rows = []\<rparr> ! 0)
      = [\<lparr>displayName = ''Oude_invoer_12345678'', last_col = 2, last_row = 2\<rparr>]
   \<and> rows \<lparr>columns = [''Item number'', ''Delay (days)''], rows = []\<rparr> = []
   \<and> columns \<lparr>columns = [''Item number'', ''Delay (days)''], rows = [] :: cell list list\<rparr> \<noteq> []
   \<and> tables (to_excel_bytes ''12345678-a'' ''22345678-b'' ''32345678-c''
        \<lparr>index_name = ''Item number'', icolumns = [''Delay (days)''], irows = [(''1'', [PyInt 3])]\<rparr>
        \<lparr>index_name = ''Item number'', icolumns = [''Delay (days)''], irows = [(''1'', [PyInt 3])]\<rparr>
        \<lparr>columns = [''Item number'', ''Delay (days)''], rows = []\<rparr> ! 2) = []
   \<and> cells (to_excel_bytes ''12345678-a'' ''22345678-b'' ''32345678-c''
        \<lparr>index_name = ''Item number'', icolumns = [''Delay (days)''], irows = [(''1'', [PyInt 3])]\<rparr>
        \<lparr>index_name = ''Item number'', icolumns = [''Delay (days)''], irows = [(''1'', [PyInt 3])]\<rparr>
        \<lparr>columns = [''Item number'', ''Delay (days)''], rows = []\<rparr> ! 2)
      = [[PyStr ''Item number'', PyStr ''Delay (days)'']]"
proof -
  let ?old = "\<lparr>index_name = ''Item number'', icolumns = [''Delay (days)''], irows = [(''1'', [PyInt 3])]\<rparr>"
  let ?add = "\<lparr>columns = [''Item number'', ''Delay (days)''], rows = [] :: cell list list\<rparr>"
  let ?wb = "to_excel_bytes ''12345678-a'' ''22345678-b'' ''32345678-c'' ?old ?old ?add"
  note t = workbook_table_regions [of "''12345678-a''" "''22345678-b''" "''32345678-c''" ?old ?old ?add]
  note per = t [THEN conjunct2, THEN conjunct1, rule_format]
  have i0: "(0 :: nat) < 3" and i2: "(2 :: nat) < 3"
    by simp_all
  have r0: "rows (reset_index ?old) \<noteq> []" and c0: "columns (reset_index ?old) \<noteq> []"
    by (simp_all add: reset_index_def)
  have r2: "rows ?add = []" and c2: "columns ?add \<noteq> []"
    by simp_all
  have cells0: "cells (?wb ! 0) = [[PyStr ''Item number'', PyStr ''Delay (days)''], [PyStr ''1'', PyInt 3]]"
    by code_simp
  have name0: "safe_table_name ''Oude_invoer'' ''12345678-a'' = ''Oude_invoer_12345678''"
    by code_simp
  from per [OF i0] r0 c0
  have "tables (?wb ! 0)
      = [\<lparr>displayName = safe_table_name
              ([''Oude_invoer'', ''Nieuwe_invoer'', ''Nieuwe_rijen_Delay_gt_0''] ! 0)
              ([''12345678-a'', ''22345678-b'', ''32345678-c''] ! 0),
           last_col = length (hd (cells (?wb ! 0))), last_row = length (cells (?wb ! 0))\<rparr>]"
    by simp
  then have t0: "tables (?wb ! 0) = [\<lparr>displayName = ''Oude_invoer_12345678'', last_col = 2, last_row = 2\<rparr>]"
    unfolding cells0 using name0 by simp
  from per [OF i2] r2 have t2: "tables (?wb ! 2) = []"
    by simp
  have hdr: "columns (excel_safe_headers ?add) = [''Item number'', ''Delay (days)'']"
    by code_simp
  from per [OF i2] c2
  have "cells (?wb ! 2) = map PyStr (columns (excel_safe_headers ?add)) # rows ?add"
    by simp
  then have cells2: "cells (?wb ! 2) = [[PyStr ''Item number'', PyStr ''Delay (days)'']]"
    unfolding hdr by simp
  from i0 i2 r0 c0 t0 r2 c2 t2 cells2 show ?thesis
    by (intro conjI)
qed

section \<open>The export leaves its arguments unchanged\<close>

lemma st_reset_index_Some:
  "st_reset_index st df = Some (r, st') \<Longrightarrow> r = length st \<and> (\<exists>f. st' = st @ [f])"
  by (auto simp: st_reset_index_def split: if_splits frame.splits)

lemma st_copy_Some:
  "st_copy st df = Some (out, st1) \<Longrightarrow> out = length st \<and> st1 = st @ [st ! df]"
  by (cases "df < length st") (simp_all add: st_copy_def)

lemma st_set_columns_last:
  assumes "st_set_columns (st @ [f]) (length st) cols = Some st2"
  shows "\<exists>g. st2 = st @ [g]"
proof (cases f)
  case (Plain t)
  with assms show ?thesis
    by (cases "length cols = length (columns t)") (auto simp: st_set_columns_def)
next
  case (Keyed t)
  with assms show ?thesis
    by (cases "length cols = length (icolumns t)") (auto simp: st_set_columns_def)
qed

lemma st_excel_safe_headers_Some:
  assumes "st_excel_safe_headers st df = Some (r, st')"
  shows "r = length st \<and> (\<exists>f. st' = st @ [f])"
proof -
  from assms obtain cols where c: "st_columns st df = Some cols"
    by (cases "st_columns st df") (simp_all add: st_excel_safe_headers_def)
  with assms obtain out st1 where cp: "st_copy st df = Some (out, st1)"
    by (cases "st_copy st df") (auto simp: st_excel_safe_headers_def Let_def)
  with assms c obtain st2
    where s: "st_set_columns st1 out (safe_headers 1 cols [] []) = Some st2"
    by (cases "st_set_columns st1 out (safe_headers 1 cols [] [])")
       (simp_all add: st_excel_safe_headers_def Let_def)
  with assms c cp have r: "r = out" "st' = st2"
    by (simp_all add: st_excel_safe_headers_def Let_def)
  from st_copy_Some [OF cp] have o: "out = length st" "st1 = st @ [st ! df]"
    by simp_all
  from s have "\<exists>g. st2 = st @ [g]"
    unfolding o by (rule st_set_columns_last)
  with r o show ?thesis
    by simp
qed

lemma st_to_excel_bytes_extends:
  assumes "st_to_excel_bytes u1 u2 u3 st a b c = Some (wb, st')"
  shows "\<exists>ys. st' = st @ ys"
proof -
  from assms obtain r1 st1 o1 st2 r2 st3 o2 st4 o3 st5
    where 1: "st_reset_index st a = Some (r1, st1)"
      and 2: "st_excel_safe_headers st1 r1 = Some (o1, st2)"
      and 3: "st_reset_index st2 b = Some (r2, st3)"
      and 4: "st_excel_safe_headers st3 r2 = Some (o2, st4)"
      and 5: "st_excel_safe_headers st4 c = Some (o3, st5)"
      and 6: "st' = st5"
    by (auto simp: st_to_excel_bytes_def split: bind_splits)
  from st_reset_index_Some [OF 1] obtain f1 where "st1 = st @ [f1]" by blast
  moreover from st_excel_safe_headers_Some [OF 2] obtain f2 where "st2 = st1 @ [f2]" by blast
  moreover from st_reset_index_Some [OF 3] obtain f3 where "st3 = st2 @ [f3]" by blast
  moreover from st_excel_safe_headers_Some [OF 4] obtain f4 where "st4 = st3 @ [f4]" by blast
  moreover from st_excel_safe_headers_Some [OF 5] obtain f5 where "st5 = st4 @ [f5]" by blast
  ultimately have "st5 = st @ [f1, f2, f3, f4, f5]"
    by simp
  with 6 show ?thesis
    by blast
qed

lemma st_reset_index_Keyed:
  "df < length st \<Longrightarrow> st ! df = Keyed t \<Longrightarrow>
   st_reset_index st df = Some (length st, st @ [Plain (reset_index t)])"
  by (simp add: st_reset_index_def)

lemma st_excel_safe_headers_Plain:
  "df < length st \<Longrightarrow> st ! df = Plain t \<Longrightarrow>
   st_excel_safe_headers st df = Some (length st, st @ [Plain (excel_safe_headers t)])"
  using safe_headers_prefix [of 1 "columns t" "[]" "[]"]
  by (simp add: st_excel_safe_headers_def st_columns_def st_copy_def st_set_columns_def
        excel_safe_headers_def nth_append)

lemma st_to_excel_Plain:
  "df < length st \<Longrightarrow> st ! df = Plain t \<Longrightarrow> st_to_excel st df name = Some (to_excel t name)"
  by (simp add: st_to_excel_def)

lemma st_to_excel_bytes_run:
  assumes a: "df_old < length st" "st ! df_old = Keyed old"
    and b: "df_new < length st" "st ! df_new = Keyed new"
    and c: "df_add < length st" "st ! df_add = Plain added"
  shows "st_to_excel_bytes u1 u2 u3 st df_old df_new df_add =
           Some (to_excel_bytes u1 u2 u3 old new added,
                 st @ [Plain (reset_index old), Plain (excel_safe_headers (reset_index old)),
                       Plain (reset_index new), Plain (excel_safe_headers (reset_index new)),
                       Plain (excel_safe_headers added)])"
proof -
  let ?f1 = "Plain (reset_index old)"
  let ?f2 = "Plain (excel_safe_headers (reset_index old))"
  let ?f3 = "Plain (reset_index new)"
  let ?f4 = "Plain (excel_safe_headers (reset_index new))"
  let ?f5 = "Plain (excel_safe_headers added)"
  let ?st1 = "st @ [?f1]"
  let ?st2 = "?st1 @ [?f2]"
  let ?st3 = "?st2 @ [?f3]"
  let ?st4 = "?st3 @ [?f4]"
  let ?st5 = "?st4 @ [?f5]"
  have 1: "st_reset_index st df_old = Some (length st, ?st1)"
    using a by (rule st_reset_index_Keyed)
  have "length st < length ?st1"
    by simp
  moreover have "?st1 ! length st = ?f1"
    by (rule nth_append_length)
  ultimately have 2: "st_excel_safe_headers ?st1 (length st) = Some (length ?st1, ?st2)"
    by (rule st_excel_safe_headers_Plain)
  have "df_new < length ?st2"
    using b(1) by simp
  moreover have "?st2 ! df_new = Keyed new"
    using b by (simp add: nth_append)
  ultimately have 3: "st_reset_index ?st2 df_new = Some (length ?st2, ?st3)"
    by (rule st_reset_index_Keyed)
  have "length ?st2 < length ?st3"
    by simp
  moreover have "?st3 ! length ?st2 = ?f3"
    by (rule nth_append_length)
  ultimately have 4: "st_excel_safe_headers ?st3 (length ?st2) = Some (length ?st3, ?st4)"
    by (rule st_excel_safe_headers_Plain)
  have "df_add < length ?st4"
    using c(1) by simp
  moreover have "?st4 ! df_add = Plain added"
    using c by (simp add: nth_append)
  ultimately have 5: "st_excel_safe_headers ?st4 df_add = Some (length ?st4, ?st5)"
    by (rule st_excel_safe_headers_Plain)
  have all: "?st5 = st @ [?f1, ?f2, ?f3, ?f4, ?f5]"
    by simp
  have l1: "length ?st1 = length st + 1" and l3: "length ?st3 = length st + 3"
    and l4: "length ?st4 = length st + 4"
    by simp_all
  have "?st5 ! length ?st1 = [?f1, ?f2, ?f3, ?f4, ?f5] ! 1"
    unfolding all l1 by (rule nth_append_length_plus)
  then have p6: "?st5 ! length ?st1 = ?f2"
    by simp
  have "?st5 ! length ?st3 = [?f1, ?f2, ?f3, ?f4, ?f5] ! 3"
    unfolding all l3 by (rule nth_append_length_plus)
  then have p7: "?st5 ! length ?st3 = ?f4"
    by simp
  have "?st5 ! length ?st4 = [?f1, ?f2, ?f3, ?f4, ?f5] ! 4"
    unfolding all l4 by (rule nth_append_length_plus)
  then have p8: "?st5 ! length ?st4 = ?f5"
    by simp
  have 6: "st_to_excel ?st5 (length ?st1) ''Oude_invoer''
             = Some (to_excel (excel_safe_headers (reset_index old)) ''Oude_invoer'')"
    using _ p6 by (rule st_to_excel_Plain) simp
  have 7: "st_to_excel ?st5 (length ?st3) ''Nieuwe_invoer''
             = Some (to_excel (excel_safe_headers (reset_index new)) ''Nieuwe_invoer'')"
    using _ p7 by (rule st_to_excel_Plain) simp
  have 8: "st_to_excel ?st5 (length ?st4) ''Nieuwe_rijen_Delay_gt_0''
             = Some (to_excel (excel_safe_headers added) ''Nieuwe_rijen_Delay_gt_0'')"
    using _ p8 by (rule st_to_excel_Plain) simp
  have "st_to_excel_bytes u1 u2 u3 st df_old df_new df_add =
          Some ([add_table u1 (to_excel (excel_safe_headers (reset_index old)) ''Oude_invoer''),
                 add_table u2 (to_excel (excel_safe_headers (reset_index new)) ''Nieuwe_invoer''),
                 add_table u3 (to_excel (excel_safe_headers added) ''Nieuwe_rijen_Delay_gt_0'')], ?st5)"
    unfolding st_to_excel_bytes_def by (simp only: 1 2 3 4 5 6 7 8 bind.bind_lunit prod.case)
  then show ?thesis
    by (simp add: to_excel_bytes_def Let_def)
qed

text \<open>
  C9. Whatever references the export is called with, when it returns, every frame that
  was in the store before the call is the same as before: the store has only grown.
  Called with references to two key-indexed frames and a plain frame (the old, the new
  and the added-delay frame, which may be the same objects), it does return, the
  workbook is the one computed from the values of the three frames, and the three
  frames are unchanged; the sanitized headers are on new frames and in the workbook.
\<close>

theorem export_leaves_frames_unchanged:
  "(st_to_excel_bytes u1 u2 u3 st df_old df_new df_add = Some (wb, st')
      \<longrightarrow> length st \<le> length st' \<and> (\<forall>x < length st. st' ! x = st ! x))
   \<and> (df_old < length st \<and> df_new < length st \<and> df_add < length st
        \<and> st ! df_old = Keyed old \<and> st ! df_new = Keyed new \<and> st ! df_add = Plain added
      \<longrightarrow> (\<exists>st2. st_to_excel_bytes u1 u2 u3 st df_old df_new df_add
                    = Some (to_excel_bytes u1 u2 u3 old new added, st2)
                \<and> st2 ! df_old = Keyed old \<and> st2 ! df_new = Keyed new
                \<and> st2 ! df_add = Plain added))"
proof (rule conjI; rule impI)
  assume "st_to_excel_bytes u1 u2 u3 st df_old df_new df_add = Some (wb, st')"
  then obtain ys where "st' = st @ ys"
    using st_to_excel_bytes_extends by blast
  then show "length st \<le> length st' \<and> (\<forall>x < length st. st' ! x = st ! x)"
    by (simp add: nth_append)
next
  assume h: "df_old < length st \<and> df_new < length st \<and> df_add < length st
        \<and> st ! df_old = Keyed old \<and> st ! df_new = Keyed new \<and> st ! df_add = Plain added"
  let ?st2 = "st @ [Plain (reset_index old), Plain (excel_safe_headers (reset_index old)),
                       Plain (reset_index new), Plain (excel_safe_headers (reset_index new)),
                       Plain (excel_safe_headers added)]"
  from h have run: "st_to_excel_bytes u1 u2 u3 st df_old df_new df_add
                    = Some (to_excel_bytes u1 u2 u3 old new added, ?st2)"
    by (intro st_to_excel_bytes_run) simp_all
  from h have "?st2 ! df_old = Keyed old" "?st2 ! df_new = Keyed new" "?st2 ! df_add = Plain added"
    by (simp_all add: nth_append)
  with run show "\<exists>st2. st_to_excel_bytes u1 u2 u3 st df_old df_new df_add
                    = Some (to_excel_bytes u1 u2 u3 old new added, st2)
                \<and> st2 ! df_old = Keyed old \<and> st2 ! df_new = Keyed new
                \<and> st2 ! df_add = Plain added"
    by blast
qed

theorem export_leaves_frames_unchanged_witness:
  "(0 :: nat) < length [Keyed \<lparr>index_name = ''Item number'', icolumns = [''a/b''], irows = [(''1'', [PyInt 3])]\<rparr>,
                        Plain \<lparr>columns = [''Item number'', ''a/b''], rows = []\<rparr>]
   \<and> (1 :: nat) < length [Keyed \<lparr>index_name = ''Item number'', icolumns = [''a/b''], irows = [(''1'', [PyInt 3])]\<rparr>,
                        Plain \<lparr>columns = [''Item number'', ''a/b''], rows = []\<rparr>]
   \<and> (\<exists>st2. st_to_excel_bytes ''12345678-a'' ''22345678-b'' ''32345678-c''
          [Keyed \<lparr>index_name = ''Item number'', icolumns = [''a/b''], irows = [(''1'', [PyInt 3])]\<rparr>,
           Plain \<lparr>columns = [''Item number'', ''a/b''], rows = []\<rparr>] 0 0 1
        = Some (to_excel_bytes ''12345678-a'' ''22345678-b'' ''32345678-c''
                  \<lparr>index_name = ''Item number'', icolumns = [''a/b''], irows = [(''1'', [PyInt 3])]\<rparr>
                  \<lparr>index_name = ''Item number'', icolumns = [''a/b''], irows = [(''1'', [PyInt 3])]\<rparr>
                  \<lparr>columns = [''Item number'', ''a/b''], rows = []\<rparr>, st2)
      \<and> 2 \<le> length st2
      \<and> st2 ! 0 = Keyed \<lparr>index_name = ''Item number'', icolumns = [''a/b''], irows = [(''1'', [PyInt 3])]\<rparr>
      \<and> st2 ! 1 = Plain \<lparr>columns = [''Item number'', ''a/b''], rows = []\<rparr>)
   \<and> cells (to_excel_bytes ''12345678-a'' ''22345678-b'' ''32345678-c''
                  \<lparr>index_name = ''Item number'', icolumns = [''a/b''], irows = [(''1'', [PyInt 3])]\<rparr>
                  \<lparr>index_name = ''Item number'', icolumns = [''a/b''], irows = [(''1'', [PyInt 3])]\<rparr>
                  \<lparr>columns = [''Item number'', ''a/b''], rows = []\<rparr> ! 2)
      = [[PyStr ''Item number'', PyStr ''a_b'']]"
proof -
  let ?old = "\<lparr>index_name = ''Item number'', icolumns = [''a/b''], irows = [(''1'', [PyInt 3])]\<rparr>"
  let ?add = "\<lparr>columns = [''Item number'', ''a/b''], rows = [] :: cell list list\<rparr>"
  let ?st = "[Keyed ?old, Plain ?add]"
  let ?wb = "to_excel_bytes ''12345678-a'' ''22345678-b'' ''32345678-c'' ?old ?old ?add"
  have h: "0 < length ?st \<and> 0 < length ?st \<and> 1 < length ?st
        \<and> ?st ! 0 = Keyed ?old \<and> ?st ! 0 = Keyed ?old \<and> ?st ! 1 = Plain ?add"
    by simp
  from export_leaves_frames_unchanged [of "''12345678-a''" "''22345678-b''" "''32345678-c''"
      ?st 0 0 1 ?wb ?st ?old ?old ?add, THEN conjunct2] h
  obtain st2 where run: "st_to_excel_bytes ''12345678-a'' ''22345678-b'' ''32345678-c'' ?st 0 0 1
        = Some (?wb, st2)"
    by blast
  from export_leaves_frames_unchanged [of "''12345678-a''" "''22345678-b''" "''32345678-c''"
      ?st 0 0 1 ?wb st2 ?old ?old ?add, THEN conjunct1] run
  have keep: "length ?st \<le> length st2" "\<forall>x < length ?st. st2 ! x = ?st ! x"
    by blast+
  from keep(2) have "st2 ! 0 = ?st ! 0" "st2 ! 1 = ?st ! 1"
    by simp_all
  then have s0: "st2 ! 0 = Keyed ?old" and s1: "st2 ! 1 = Plain ?add"
    by simp_all
  from keep(1) have len: "2 \<le> length st2"
    by simp
  have cells2: "cells (?wb ! 2) = [[PyStr ''Item number'', PyStr ''a_b'']]"
    by code_simp
  have l0: "(0 :: nat) < length ?st" and l1: "(1 :: nat) < length ?st"
    by simp_all
  from run len s0 s1 have "\<exists>st2. st_to_excel_bytes ''12345678-a'' ''22345678-b'' ''32345678-c'' ?st 0 0 1
        = Some (?wb, st2) \<and> 2 \<le> length st2 \<and> st2 ! 0 = Keyed ?old \<and> st2 ! 1 = Plain ?add"
    by blast
  with l0 l1 cells2 show ?thesis
    by (intro conjI)
qed

section \<open>The preparer returns key-indexed frames\<close>

text \<open>
  The frames \<^verbatim>\<open>_prepare\<close> returns satisfy \<open>key_indexed\<close>, the condition under which the
  delta filter is specified above.
\<close>

lemma indexed_distinct_keys:
  assumes key: "key \<in> set (columns df)"
    and rect: "list_all (\<lambda>r. length r = length (columns df)) (rows df)"
  shows "distinct (map fst (irows (set_index key (select_columns (key # rest)
            (drop_duplicates_last key (clean_key_column fr key df))))))"
proof -
  let ?i = "col_index (columns df) key"
  let ?g = "\<lambda>r. r[?i := PyStr (clean_key_value fr (r ! ?i))]"
  let ?R = "keep_last (\<lambda>r. r ! ?i) (map ?g (rows df))"
  have i: "?i < length (columns df)"
    using key by (rule col_index_less)
  have cell: "\<And>r. r \<in> set (rows df) \<Longrightarrow> ?g r ! ?i = PyStr (clean_key_value fr (r ! ?i))"
  proof -
    fix r assume "r \<in> set (rows df)"
    with rect have "length r = length (columns df)"
      by (simp add: list_all_iff)
    with i show "?g r ! ?i = PyStr (clean_key_value fr (r ! ?i))"
      by simp
  qed
  have strs: "\<And>c. c \<in> set (map (\<lambda>r. r ! ?i) ?R) \<Longrightarrow> \<exists>s. c = PyStr s"
  proof -
    fix c assume "c \<in> set (map (\<lambda>r. r ! ?i) ?R)"
    then have "c \<in> (\<lambda>r. r ! ?i) ` set ?R"
      by simp
    then have "c \<in> (\<lambda>r. r ! ?i) ` set (map ?g (rows df))"
      unfolding keys_keep_last .
    then obtain r where "r \<in> set (rows df)" "c = ?g r ! ?i"
      by auto
    with cell show "\<exists>s. c = PyStr s"
      by simp
  qed
  have "inj_on str_of_cell (set (map (\<lambda>r. r ! ?i) ?R))"
  proof (rule inj_onI)
    fix x y
    assume "x \<in> set (map (\<lambda>r. r ! ?i) ?R)" "y \<in> set (map (\<lambda>r. r ! ?i) ?R)"
      and e: "str_of_cell x = str_of_cell y"
    then obtain a b where "x = PyStr a" "y = PyStr b"
      using strs by blast
    with e show "x = y"
      by simp
  qed
  moreover have "distinct (map (\<lambda>r. r ! ?i) ?R)"
    by (rule distinct_keep_last)
  ultimately have "distinct (map str_of_cell (map (\<lambda>r. r ! ?i) ?R))"
    by (simp only: distinct_map simp_thms)
  moreover have "map fst (irows (set_index key (select_columns (key # rest)
            (drop_duplicates_last key (clean_key_column fr key df)))))
        = map str_of_cell (map (\<lambda>r. r ! ?i) ?R)"
    by (simp add: set_index_def select_columns_def drop_duplicates_last_def
          clean_key_column_def Let_def col_index_Cons comp_def)
  ultimately show ?thesis
    by simp
qed

lemma indexed_shape:
  assumes "key \<notin> set rest" "distinct rest"
  shows "distinct (index_name (set_index key (select_columns (key # rest) df))
                   # icolumns (set_index key (select_columns (key # rest) df)))
       \<and> list_all (\<lambda>r. length (snd r) = length (icolumns (set_index key (select_columns (key # rest) df))))
            (irows (set_index key (select_columns (key # rest) df)))"
  using assms
  by (simp add: set_index_def select_columns_def Let_def col_index_Cons list_all_iff)

lemma prepare_key_indexed:
  assumes ok: "frame_ok df_old" "frame_ok df_new"
    and p: "prepare fr df_old df_new key = Inr (old, new, cc)"
  shows "key_indexed old \<and> key_indexed new"
proof -
  let ?o = "ensure_item_number (canon_columns df_old)"
  let ?n = "ensure_item_number (canon_columns df_new)"
  let ?c0 = "sort (remdups (filter (\<lambda>c. c \<in> set (columns ?o)) (columns ?n)))"
  let ?rest = "filter (\<lambda>c. c \<noteq> key) ?c0"
  from p have ko: "key \<in> set (columns ?o)" and kn: "key \<in> set (columns ?n)"
    by (auto simp: prepare_def Let_def split: if_splits)
  then have kc: "key \<in> set ?c0"
    by simp
  have co: "columns (drop_duplicates_last key (clean_key_column fr key ?o)) = columns ?o"
    and cn: "columns (drop_duplicates_last key (clean_key_column fr key ?n)) = columns ?n"
    by (simp_all add: drop_duplicates_last_def clean_key_column_def Let_def)
  have "prepare fr df_old df_new key =
          Inr (set_index key (select_columns (key # ?rest)
                 (drop_duplicates_last key (clean_key_column fr key ?o))),
               set_index key (select_columns (key # ?rest)
                 (drop_duplicates_last key (clean_key_column fr key ?n))),
               key # ?rest)"
    using ko kn kc unfolding prepare_def Let_def co cn by simp
  with p [symmetric]
  have "Inr (old, new, cc) =
          (Inr (set_index key (select_columns (key # ?rest)
                 (drop_duplicates_last key (clean_key_column fr key ?o))),
               set_index key (select_columns (key # ?rest)
                 (drop_duplicates_last key (clean_key_column fr key ?n))),
               key # ?rest) :: error + itable \<times> itable \<times> string list)"
    by (rule trans)
  then
  have old: "old = set_index key (select_columns (key # ?rest)
            (drop_duplicates_last key (clean_key_column fr key ?o)))"
    and new: "new = set_index key (select_columns (key # ?rest)
            (drop_duplicates_last key (clean_key_column fr key ?n)))"
    by simp_all
  have r1: "key \<notin> set ?rest" and r2: "distinct ?rest"
    by simp_all
  have "key_indexed old"
    unfolding key_indexed_def old
    using indexed_distinct_keys [OF ko rect_of_frame_ok [OF ok(1)]] indexed_shape [OF r1 r2]
    by blast
  moreover have "key_indexed new"
    unfolding key_indexed_def new
    using indexed_distinct_keys [OF kn rect_of_frame_ok [OF ok(2)]] indexed_shape [OF r1 r2]
    by blast
  ultimately show ?thesis
    by simp
qed

end
